theory Spec2Isabelle
  imports Complex_Main
begin

section \<open>Python values shared by both modules\<close>

text \<open>
  Exceptions of the source are values: \<open>Inl\<close> of one of these.  \<open>QiskitError\<close> carries
  the message the source raises it with.
\<close>

datatype py_error =
    QiskitError string
  | ValueError string
  | BackendPropertyError
  | IndexError
  | ZeroDivisionError

text \<open>A numpy array of complex entries, as the list of its rows.\<close>

type_synonym matrix = "complex list list"

text \<open>
  \<open>x or y\<close> on optional floats: the left operand when it is truthy (neither \<open>None\<close>
  nor \<open>0.0\<close>), the right operand otherwise.
\<close>

definition truthy :: "real option \<Rightarrow> bool" where
  "truthy x = (case x of None \<Rightarrow> False | Some v \<Rightarrow> v \<noteq> 0)"

definition py_or :: "real option \<Rightarrow> real option \<Rightarrow> real option" where
  "py_or x y = (if truthy x then x else y)"

text \<open>A float that may be \<open>math.inf\<close>, and Python's \<open><\<close> on such floats.\<close>

datatype pyfloat = Fin real | PInf

fun pf_less :: "pyfloat \<Rightarrow> pyfloat \<Rightarrow> bool" where
  "pf_less (Fin a) (Fin b) = (a < b)"
| "pf_less (Fin a) PInf = True"
| "pf_less PInf b = False"


text \<open>
  Sequencing of steps that may raise, reading a list at an index, updating it in place
  (\<open>xs[k] = f(xs[k])\<close>; IndexError out of range), and a \<open>for\<close> loop over a list of
  indices that stops at the first exception.
\<close>

definition bind :: "py_error + 'a \<Rightarrow> ('a \<Rightarrow> py_error + 'b) \<Rightarrow> py_error + 'b" where
  "bind m f = (case m of Inl e \<Rightarrow> Inl e | Inr x \<Rightarrow> f x)"

definition get :: "'a list \<Rightarrow> nat \<Rightarrow> py_error + 'a" where
  "get xs k = (if k < length xs then Inr (xs ! k) else Inl IndexError)"

definition update_at :: "'a list \<Rightarrow> nat \<Rightarrow> ('a \<Rightarrow> 'a) \<Rightarrow> py_error + 'a list" where
  "update_at xs k f = (if k < length xs then Inr (xs[k := f (xs ! k)]) else Inl IndexError)"

fun for_each :: "nat list \<Rightarrow> (nat \<Rightarrow> 's \<Rightarrow> py_error + 's) \<Rightarrow> 's \<Rightarrow> py_error + 's" where
  "for_each [] body s = Inr s"
| "for_each (i # rest) body s = bind (body i s) (for_each rest body)"
section \<open>unitary_synthesis.py: choosing the bases\<close>

datatype kak_gate = CXGate | CZGate | iSwapGate | RXXGate real | ECRGate

definition kak_gate_names :: "(string \<times> kak_gate) list" where
  "kak_gate_names =
     [(''cx'', CXGate), (''cz'', CZGate), (''iswap'', iSwapGate),
      (''rxx'', RXXGate (pi / 2)), (''ecr'', ECRGate)]"

text \<open>\<open>basis_gates or []\<close>: \<open>None\<close> and the empty list both give the empty list.\<close>

definition or_empty :: "string list option \<Rightarrow> string list" where
  "or_empty basis_gates = (case basis_gates of None \<Rightarrow> [] | Some bs \<Rightarrow> bs)"

definition kak_gates :: "string list option \<Rightarrow> string set" where
  "kak_gates basis_gates = set (or_empty basis_gates) \<inter> set (map fst kak_gate_names)"

text \<open>
  \<open>_choose_kak_gate\<close>.  The source builds the set \<open>kak_gates\<close> and takes
  \<open>kak_gates.pop()\<close>: \<open>set.pop\<close> removes and returns an arbitrary element (the order of
  a set of strings follows their hashes, which CPython salts per process).  The model is
  therefore a relation between the input and each result the call may return.
\<close>

inductive choose_kak_gate :: "string list option \<Rightarrow> kak_gate option \<Rightarrow> bool" where
  no_kak: "kak_gates basis_gates = {} \<Longrightarrow> choose_kak_gate basis_gates None"
| pop_kak: "name \<in> kak_gates basis_gates \<Longrightarrow> map_of kak_gate_names name = Some g
      \<Longrightarrow> choose_kak_gate basis_gates (Some g)"

definition euler_basis_names :: "(string \<times> string list) list" where
  "euler_basis_names =
     [(''U3'', [''u3'']), (''U1X'', [''u1'', ''rx'']), (''RR'', [''r'']),
      (''ZYZ'', [''rz'', ''ry'']), (''ZXZ'', [''rz'', ''rx'']), (''XYX'', [''rx'', ''ry''])]"

text \<open>The loop over \<open>euler_basis_names.items()\<close>, in the dict's insertion order.\<close>

fun first_basis :: "(string \<times> string list) list \<Rightarrow> string set \<Rightarrow> string option" where
  "first_basis [] basis_set = None"
| "first_basis ((basis, gates) # rest) basis_set =
     (if set gates \<subseteq> basis_set then Some basis else first_basis rest basis_set)"

definition choose_euler_basis :: "string list option \<Rightarrow> string option" where
  "choose_euler_basis basis_gates = first_basis euler_basis_names (set (or_empty basis_gates))"

section \<open>unitary_synthesis.py: the pass\<close>

text \<open>
  Modelled from the spec: \<open>BackendProperties\<close> (qiskit.providers.models) is not among the
  sources.  The spec's data model gives it as a read-only map from (gate name, ordered
  qubit-index tuple) to \<open>{duration, error}\<close>, whose lookups raise a "no data" signal
  (\<open>BackendPropertyError\<close>) for a pair without an entry.
\<close>

record calibration =
  cal_duration :: real
  cal_error :: real

type_synonym backend_properties = "string \<times> nat list \<Rightarrow> calibration option"

definition gate_length :: "backend_properties \<Rightarrow> string \<Rightarrow> nat list \<Rightarrow> py_error + real" where
  "gate_length props g qubits =
     (case props (g, qubits) of None \<Rightarrow> Inl BackendPropertyError | Some c \<Rightarrow> Inr (cal_duration c))"

definition gate_error :: "backend_properties \<Rightarrow> string \<Rightarrow> nat list \<Rightarrow> py_error + real" where
  "gate_error props g qubits =
     (case props (g, qubits) of None \<Rightarrow> Inl BackendPropertyError | Some c \<Rightarrow> Inr (cal_error c))"

text \<open>
  The graph collaborators.  A node of the input graph has a name, the indices of its
  qubit arguments and the matrix of its operation.  A synthesized circuit is what the
  pass reads of it: its operations (name and qubit indices, in order) and its wires.
  Substituting a node puts the synthesized circuit and the wire order in its place.
\<close>

record dag_node =
  node_name :: string
  node_qargs :: "nat list"
  node_matrix :: matrix

record synth_dag =
  dag_ops :: "(string \<times> nat list) list"
  dag_wires :: "nat list"

datatype dag_entry = OpNode dag_node | Substituted synth_dag "nat list option"

type_synonym dag = "dag_entry list"

definition two_qubit_ops :: "synth_dag \<Rightarrow> nat list list" where
  "two_qubit_ops d = map snd (filter (\<lambda>(n, qs). length qs = 2) (dag_ops d))"

text \<open>
  The decomposers are external primitives: \<open>OneQubitEulerDecomposer(basis)(matrix)\<close>,
  \<open>TwoQubitBasisDecomposer(gate, euler_basis, pulse_optimize)(matrix, basis_fidelity)\<close>
  and \<open>isometry.Isometry(matrix, 0, 0).definition\<close>, each already converted to a graph.
\<close>

record externals =
  decomposer1q :: "string \<Rightarrow> matrix \<Rightarrow> synth_dag"
  decomposer2q :: "kak_gate \<Rightarrow> string option \<Rightarrow> bool \<Rightarrow> matrix \<Rightarrow> real option \<Rightarrow> synth_dag"
  isometry :: "matrix \<Rightarrow> synth_dag"

text \<open>
  The pass object: \<open>_basis_gates\<close>, \<open>_fidelity\<close>, \<open>_backend_props\<close>, and whether
  \<open>property_set['layout']\<close> is truthy.
\<close>

record unitary_synthesis =
  basis_gates :: "string list option"
  fidelity :: "real option"
  backend_props :: "backend_properties option"
  layout :: bool

text \<open>Every call of \<open>gate_length\<close> or \<open>gate_error\<close> is logged with its arguments.\<close>

type_synonym query = "string \<times> nat list"

definition duration_or_inf :: "py_error + real \<Rightarrow> pyfloat" where
  "duration_or_inf r = (case r of Inl e \<Rightarrow> PInf | Inr d \<Rightarrow> Fin d)"

definition natural_direction_of :: "pyfloat \<Rightarrow> pyfloat \<Rightarrow> nat list option" where
  "natural_direction_of len_0_1 len_1_0 =
     (if pf_less len_0_1 len_1_0 then Some [0, 1]
      else if pf_less len_1_0 len_0_1 then Some [1, 0]
      else None)"

text \<open>
  Lines 135 to 158 of \<open>run\<close>: the natural direction and the physical gate fidelity of a
  two-qubit node with qubit indices \<open>qargs\<close>.  The two \<open>gate_length\<close> calls are inside
  \<open>try ... except BackendPropertyError: pass\<close>; the \<open>gate_error\<close> call is not.
\<close>

definition select_direction ::
  "unitary_synthesis \<Rightarrow> nat list \<Rightarrow> query list
     \<Rightarrow> (py_error + nat list option \<times> real option) \<times> query list" where
  "select_direction p qargs qlog =
     (case backend_props p of
        None \<Rightarrow> (Inr (None, None), qlog)
      | Some props \<Rightarrow>
          if \<not> layout p then (Inr (None, None), qlog)
          else
            let q01 = [qargs ! 0, qargs ! 1];
                q10 = [qargs ! 1, qargs ! 0];
                len_0_1 = duration_or_inf (gate_length props ''cx'' q01);
                len_1_0 = duration_or_inf (gate_length props ''cx'' q10);
                qlog1 = qlog @ [(''cx'', q01), (''cx'', q10)]
            in (case natural_direction_of len_0_1 len_1_0 of
                  None \<Rightarrow> (Inr (None, None), qlog1)
                | Some d \<Rightarrow>
                    let qs = map (\<lambda>i. qargs ! i) d;
                        qlog2 = qlog1 @ [(''cx'', qs)]
                    in (case gate_error props ''cx'' qs of
                          Inl e \<Rightarrow> (Inl e, qlog2)
                        | Inr err \<Rightarrow> (Inr (Some d, Some (1 - err)), qlog2))))"

text \<open>Line 165: \<open>basis_fidelity = self._fidelity or physical_gate_fidelity\<close>.\<close>

definition basis_fidelity :: "unitary_synthesis \<Rightarrow> real option \<Rightarrow> real option" where
  "basis_fidelity p physical_gate_fidelity = py_or (fidelity p) physical_gate_fidelity"

text \<open>
  \<open>su4_mat_mm[[1, 2]] = su4_mat_mm[[2, 1]]\<close> and the same on the columns; numpy raises
  IndexError when the array has no index 2 on that axis.
\<close>

definition swap_1_2 :: "'a list \<Rightarrow> py_error + 'a list" where
  "swap_1_2 xs = (if length xs < 3 then Inl IndexError else Inr (xs[1 := xs ! 2, 2 := xs ! 1]))"

fun swap_cols :: "matrix \<Rightarrow> py_error + matrix" where
  "swap_cols [] = Inr []"
| "swap_cols (r # rs) =
     (case swap_1_2 r of
        Inl e \<Rightarrow> Inl e
      | Inr r' \<Rightarrow> (case swap_cols rs of Inl e \<Rightarrow> Inl e | Inr rs' \<Rightarrow> Inr (r' # rs')))"

definition mirror :: "matrix \<Rightarrow> py_error + matrix" where
  "mirror m = (case swap_1_2 m of Inl e \<Rightarrow> Inl e | Inr m' \<Rightarrow> swap_cols m')"

definition pulse_optimize :: "kak_gate option \<Rightarrow> unitary_synthesis \<Rightarrow> bool" where
  "pulse_optimize kak p =
     ((kak = Some CXGate \<or> kak = Some ECRGate) \<and> backend_props p \<noteq> None)"

text \<open>
  The branch \<open>len(node.qargs) == 2\<close> once \<open>decomposer2q\<close> exists, up to the substitution:
  the synthesized graph and the wire order, or the exception that leaves the pass.
\<close>

definition synth_2q ::
  "externals \<Rightarrow> string option \<Rightarrow> kak_gate \<Rightarrow> unitary_synthesis \<Rightarrow> dag_node \<Rightarrow> query list
     \<Rightarrow> (py_error + synth_dag \<times> nat list option) \<times> query list" where
  "synth_2q ext euler_basis kak p node qlog =
     (case select_direction p (node_qargs node) qlog of
        (Inl e, qlog') \<Rightarrow> (Inl e, qlog')
      | (Inr (natural_direction, physical_gate_fidelity), qlog') \<Rightarrow>
          let fid = basis_fidelity p physical_gate_fidelity;
              su4_mat = node_matrix node;
              dec = decomposer2q ext kak euler_basis (pulse_optimize (Some kak) p);
              synth = dec su4_mat fid
          in (case natural_direction of
                None \<Rightarrow> (Inr (synth, None), qlog')
              | Some d \<Rightarrow>
                  (case two_qubit_ops synth of
                     [] \<Rightarrow> (Inl IndexError, qlog')
                   | qs # rest \<Rightarrow>
                       if qs \<noteq> d then
                         (case mirror su4_mat of
                            Inl e \<Rightarrow> (Inl e, qlog')
                          | Inr su4_mat_mm \<Rightarrow>
                              let synth2 = dec su4_mat_mm fid
                              in (Inr (synth2, Some (rev (dag_wires synth2))), qlog'))
                       else (Inr (synth, None), qlog'))))"

text \<open>
  One turn of the loop over \<open>dag.named_nodes('unitary', 'swap')\<close>: \<open>None\<close> for
  \<open>continue\<close>, otherwise the arguments of \<open>substitute_node_with_dag\<close>.
\<close>

definition synth_node ::
  "externals \<Rightarrow> string option \<Rightarrow> kak_gate option \<Rightarrow> unitary_synthesis \<Rightarrow> dag_node \<Rightarrow> query list
     \<Rightarrow> (py_error + (synth_dag \<times> nat list option) option) \<times> query list" where
  "synth_node ext euler_basis kak p node qlog =
     (if length (node_qargs node) = 1 then
        (case euler_basis of
           None \<Rightarrow> (Inr None, qlog)
         | Some b \<Rightarrow> (Inr (Some (decomposer1q ext b (node_matrix node), None)), qlog))
      else if length (node_qargs node) = 2 then
        (case kak of
           None \<Rightarrow> (Inr None, qlog)
         | Some g \<Rightarrow>
             (case synth_2q ext euler_basis g p node qlog of
                (Inl e, qlog') \<Rightarrow> (Inl e, qlog')
              | (Inr r, qlog') \<Rightarrow> (Inr (Some r), qlog')))
      else (Inr (Some (isometry ext (node_matrix node), None)), qlog))"

definition named_unitary_or_swap :: "dag_node \<Rightarrow> bool" where
  "named_unitary_or_swap node = (node_name node = ''unitary'' \<or> node_name node = ''swap'')"

text \<open>
  The loop of \<open>run\<close> over the graph, front to back: entries that are not unitary or swap
  nodes stay, a skipped node stays, a synthesized node is substituted, and an exception
  ends the pass.
\<close>

fun run_nodes ::
  "externals \<Rightarrow> string option \<Rightarrow> kak_gate option \<Rightarrow> unitary_synthesis \<Rightarrow> dag \<Rightarrow> query list
     \<Rightarrow> (py_error + dag) \<times> query list" where
  "run_nodes ext euler_basis kak p [] qlog = (Inr [], qlog)"
| "run_nodes ext euler_basis kak p (Substituted s w # rest) qlog =
     (case run_nodes ext euler_basis kak p rest qlog of
        (Inl e, qlog') \<Rightarrow> (Inl e, qlog')
      | (Inr rest', qlog') \<Rightarrow> (Inr (Substituted s w # rest'), qlog'))"
| "run_nodes ext euler_basis kak p (OpNode node # rest) qlog =
     (if \<not> named_unitary_or_swap node then
        (case run_nodes ext euler_basis kak p rest qlog of
           (Inl e, qlog') \<Rightarrow> (Inl e, qlog')
         | (Inr rest', qlog') \<Rightarrow> (Inr (OpNode node # rest'), qlog'))
      else
        (case synth_node ext euler_basis kak p node qlog of
           (Inl e, qlog1) \<Rightarrow> (Inl e, qlog1)
         | (Inr None, qlog1) \<Rightarrow>
             (case run_nodes ext euler_basis kak p rest qlog1 of
                (Inl e, qlog') \<Rightarrow> (Inl e, qlog')
              | (Inr rest', qlog') \<Rightarrow> (Inr (OpNode node # rest'), qlog'))
         | (Inr (Some (s, w)), qlog1) \<Rightarrow>
             (case run_nodes ext euler_basis kak p rest qlog1 of
                (Inl e, qlog') \<Rightarrow> (Inl e, qlog')
              | (Inr rest', qlog') \<Rightarrow> (Inr (Substituted s w # rest'), qlog'))))"

text \<open>
  \<open>UnitarySynthesis.run\<close>: the bases are chosen first; the result is any outcome of the
  loop for a two-qubit gate that \<open>_choose_kak_gate\<close> may return.
\<close>

inductive run ::
  "externals \<Rightarrow> unitary_synthesis \<Rightarrow> dag \<Rightarrow> (py_error + dag) \<times> query list \<Rightarrow> bool" where
  run_chosen: "choose_kak_gate (basis_gates p) kak
     \<Longrightarrow> run ext p d (run_nodes ext (choose_euler_basis (basis_gates p)) kak p d [])"


text \<open>
  The graph \<open>run\<close> returns when no basis is available: exactly the unitary and swap nodes
  on neither one nor two qubits are replaced by their isometry synthesis.
\<close>

definition substitute_wide :: "externals \<Rightarrow> dag_entry \<Rightarrow> dag_entry" where
  "substitute_wide ext e =
     (case e of
        OpNode node \<Rightarrow>
          if named_unitary_or_swap node \<and> length (node_qargs node) \<noteq> 1 \<and> length (node_qargs node) \<noteq> 2
          then Substituted (isometry ext (node_matrix node)) None
          else e
      | Substituted s w \<Rightarrow> e)"

subsection \<open>Concrete inputs for the examples\<close>

definition example_ext :: externals where
  "example_ext =
     \<lparr>decomposer1q = (\<lambda>b m. \<lparr>dag_ops = [(b, [0])], dag_wires = [0]\<rparr>),
      decomposer2q = (\<lambda>g eb po m f. \<lparr>dag_ops = [(''2q'', [1, 0])], dag_wires = [0, 1]\<rparr>),
      isometry = (\<lambda>m. \<lparr>dag_ops = [(''isometry'', [0, 1, 2])], dag_wires = [0, 1, 2]\<rparr>)\<rparr>"

definition example_props :: backend_properties where
  "example_props =
     [(''cx'', [0, 1]) \<mapsto> \<lparr>cal_duration = 1, cal_error = 1 / 2\<rparr>,
      (''cx'', [1, 0]) \<mapsto> \<lparr>cal_duration = 2, cal_error = 1 / 4\<rparr>,
      (''cx'', [2, 1]) \<mapsto> \<lparr>cal_duration = 3, cal_error = 1 / 8\<rparr>]"

definition example_pass :: "string list option \<Rightarrow> unitary_synthesis" where
  "example_pass bg =
     \<lparr>basis_gates = bg, fidelity = Some (3 / 4), backend_props = Some example_props, layout = True\<rparr>"

text \<open>A pass with no requested fidelity, no backend properties and no layout.\<close>

definition unconfigured_pass :: unitary_synthesis where
  "unconfigured_pass =
     \<lparr>basis_gates = Some [''cx''], fidelity = None, backend_props = None, layout = False\<rparr>"

definition identity4 :: matrix where
  "identity4 = [[1, 0, 0, 0], [0, 1, 0, 0], [0, 0, 1, 0], [0, 0, 0, 1]]"

definition unitary_on :: "nat list \<Rightarrow> dag_node" where
  "unitary_on qs = \<lparr>node_name = ''unitary'', node_qargs = qs, node_matrix = identity4\<rparr>"

section \<open>ucg.py: matrix utilities\<close>

text \<open>
  The numpy operations the module uses, on arrays given as lists of rows.  Floats are
  read as real numbers and complex floats as complex numbers: rounding is not modelled.
\<close>

definition ncols :: "matrix \<Rightarrow> nat" where
  "ncols m = (case m of [] \<Rightarrow> 0 | r # rs \<Rightarrow> length r)"

text \<open>\<open>m.shape == (r, c)\<close> for a two-dimensional array.\<close>

definition has_shape :: "matrix \<Rightarrow> nat \<Rightarrow> nat \<Rightarrow> bool" where
  "has_shape m r c = (length m = r \<and> list_all (\<lambda>row. length row = c) m)"

definition col :: "matrix \<Rightarrow> nat \<Rightarrow> complex list" where
  "col m j = map (\<lambda>r. r ! j) m"

definition transpose_m :: "matrix \<Rightarrow> matrix" where
  "transpose_m m = map (col m) [0..<ncols m]"

text \<open>\<open>_ct(m) = np.transpose(np.conjugate(m))\<close>.\<close>

definition ct :: "matrix \<Rightarrow> matrix" where
  "ct m = transpose_m (map (map cnj) m)"

text \<open>
  \<open>a.dot(b)\<close>, the matrix product.  Every call in the module multiplies arrays of
  matching shapes (two by two after the constructor's checks, and \<open>_ct(m)\<close> with \<open>m\<close>).
\<close>

definition dot :: "matrix \<Rightarrow> matrix \<Rightarrow> matrix" where
  "dot a b = map (\<lambda>r. map (\<lambda>j. sum_list (map2 (*) r (col b j))) [0..<ncols b]) a"

text \<open>\<open>m * c\<close> for a scalar \<open>c\<close>, and \<open>a - b\<close> entry by entry.\<close>

definition scale :: "matrix \<Rightarrow> complex \<Rightarrow> matrix" where
  "scale m c = map (map (\<lambda>x. x * c)) m"

definition sub :: "matrix \<Rightarrow> matrix \<Rightarrow> matrix" where
  "sub a b = map2 (map2 (-)) a b"

text \<open>\<open>np.eye(n, n)\<close>.\<close>

definition eye :: "nat \<Rightarrow> matrix" where
  "eye n = map (\<lambda>i. map (\<lambda>j. if i = j then 1 else 0) [0..<n]) [0..<n]"

text \<open>\<open>np.linalg.norm(m)\<close>: the Frobenius norm.\<close>

definition norm_fro :: "matrix \<Rightarrow> real" where
  "norm_fro m = sqrt (sum_list (map (\<lambda>x. (cmod x)\<^sup>2) (concat m)))"

text \<open>\<open>_h()\<close> and \<open>_rz(alpha)\<close>.\<close>

definition h_gate :: matrix where
  "h_gate = scale [[1, 1], [1, - 1]] (1 / complex_of_real (sqrt 2))"

definition rz :: "real \<Rightarrow> matrix" where
  "rz alpha = [[exp (\<i> * complex_of_real alpha / 2), 0], [0, exp (- \<i> * complex_of_real alpha / 2)]]"

text \<open>
  \<open>math.isclose(a, b, rel_tol=1e-09, abs_tol=abs_tol)\<close>, as CPython computes it on finite
  floats: a negative tolerance is a ValueError, equal values are close, and otherwise the
  difference is compared with \<open>\<le>\<close> to each tolerance.
\<close>

definition isclose :: "real \<Rightarrow> real \<Rightarrow> real \<Rightarrow> real \<Rightarrow> py_error + bool" where
  "isclose a b rel_tol abs_tol =
     (if rel_tol < 0 \<or> abs_tol < 0 then Inl (ValueError ''tolerances must be non-negative'')
      else if a = b then Inr True
      else Inr (\<bar>b - a\<bar> \<le> \<bar>rel_tol * b\<bar> \<or> \<bar>b - a\<bar> \<le> \<bar>rel_tol * a\<bar> \<or> \<bar>b - a\<bar> \<le> abs_tol))"

definition isometry_err :: "matrix \<Rightarrow> real" where
  "isometry_err m = norm_fro (sub (dot (ct m) m) (eye (ncols m)))"

text \<open>\<open>_is_isometry(m, eps)\<close>.\<close>

definition is_isometry :: "matrix \<Rightarrow> real \<Rightarrow> py_error + bool" where
  "is_isometry m eps = isclose (isometry_err m) 0 (1 / 10 ^ 9) eps"

text \<open>\<open>_EPS = 1e-10\<close>.\<close>

definition EPS :: real where
  "EPS = 1 / 10 ^ 10"

section \<open>ucg.py: constructing the gate\<close>

text \<open>
  The gate object \<open>Gate.__init__("UCG", num_qubits, gate_list)\<close> leaves behind, with the
  \<open>up_to_diagonal\<close> flag.
\<close>

record ucg_gate =
  gate_name :: string
  num_qubits :: nat
  params :: "matrix list"
  up_to_diagonal :: bool

text \<open>The first loop of \<open>UCG.__init__\<close>: every gate has shape (2, 2).\<close>

fun check_shapes :: "matrix list \<Rightarrow> py_error + unit" where
  "check_shapes [] = Inr ()"
| "check_shapes (gate # rest) =
     (if \<not> has_shape gate 2 2
      then Inl (QiskitError ''The dimension of a controlled gate is not equal to (2,2).'')
      else check_shapes rest)"

text \<open>The last loop of \<open>UCG.__init__\<close>: every gate passes \<open>_is_isometry(gate, _EPS)\<close>.\<close>

fun check_unitary :: "matrix list \<Rightarrow> py_error + unit" where
  "check_unitary [] = Inr ()"
| "check_unitary (gate # rest) =
     (case is_isometry gate EPS of
        Inl e \<Rightarrow> Inl e
      | Inr ok \<Rightarrow>
          if \<not> ok then Inl (QiskitError ''A controlled gate is not unitary.'')
          else check_unitary rest)"

text \<open>
  \<open>math.log2\<close> of a list length, a non-negative integer: a ValueError at 0, the real
  logarithm otherwise.
\<close>

definition math_log2 :: "nat \<Rightarrow> py_error + real" where
  "math_log2 n = (if n = 0 then Inl (ValueError ''math domain error'') else Inr (log 2 (real n)))"

definition not_power_of_2 :: string where
  "not_power_of_2 = ''The number of controlled single-qubit gates is not a non negative power of 2.''"

text \<open>
  \<open>UCG.__init__\<close>.  The argument is a list (the \<open>type(gate_list) == list\<close> test is part of
  the model's typing).  The gate object exists only when every check has passed.
\<close>

definition UCG :: "matrix list \<Rightarrow> bool \<Rightarrow> py_error + ucg_gate" where
  "UCG gate_list utd =
     (case check_shapes gate_list of
        Inl e \<Rightarrow> Inl e
      | Inr u \<Rightarrow>
          if length gate_list = 0 then Inl (QiskitError ''The gate list cannot be empty.'')
          else
            (case math_log2 (length gate_list) of
               Inl e \<Rightarrow> Inl e
             | Inr num_contr \<Rightarrow>
                 if num_contr < 0 \<or> num_contr \<notin> \<int> then Inl (QiskitError not_power_of_2)
                 else
                   (case check_unitary gate_list of
                      Inl e \<Rightarrow> Inl e
                    | Inr u \<Rightarrow>
                        Inr \<lparr>gate_name = ''UCG'', num_qubits = nat \<lfloor>num_contr\<rfloor> + 1,
                             params = gate_list, up_to_diagonal = utd\<rparr>)))"

text \<open>
  \<open>QuantumCircuit.ucg\<close>, for a list of control qubits and one target qubit (the
  conversions of registers and the \<open>type(...) == list\<close> tests are part of the model's
  typing).  A circuit is the list of the instructions appended to it, each with its qubits.
\<close>

type_synonym circuit = "(ucg_gate \<times> nat list) list"

definition ucg :: "circuit \<Rightarrow> matrix list \<Rightarrow> nat list \<Rightarrow> nat \<Rightarrow> bool \<Rightarrow> py_error + circuit" where
  "ucg self gate_list q_controls q_target utd =
     (case math_log2 (length gate_list) of
        Inl e \<Rightarrow> Inl e
      | Inr num_contr \<Rightarrow>
          if num_contr < 0 \<or> num_contr \<notin> \<int> then Inl (QiskitError not_power_of_2)
          else if num_contr \<noteq> real (length q_controls) then
            Inl (QiskitError
              ''Number of controlled gates does not correspond to the number of control-qubits.'')
          else
            (case UCG gate_list utd of
               Inl e \<Rightarrow> Inl e
             | Inr gate \<Rightarrow> Inr (self @ [(gate, q_target # q_controls)])))"

section \<open>ucg.py: the decomposition\<close>

text \<open>\<open>m.item((i, j))\<close>, \<open>np.diag(v)\<close> of a vector of two entries, and \<open>np.linalg.det\<close> of a
  two-by-two array.\<close>

definition item :: "matrix \<Rightarrow> nat \<Rightarrow> nat \<Rightarrow> complex" where
  "item m i j = m ! i ! j"

definition diag_m :: "complex list \<Rightarrow> matrix" where
  "diag_m v = map (\<lambda>i. map (\<lambda>j. if i = j then v ! i else 0) [0..<length v]) [0..<length v]"

definition det2 :: "matrix \<Rightarrow> complex" where
  "det2 m = item m 0 0 * item m 1 1 - item m 0 1 * item m 1 0"

text \<open>
  \<open>np.linalg.eig\<close> is a parameter of the model.  What numpy documents of it, for a
  two-by-two array \<open>m\<close>: it returns the two eigenvalues, each repeated according to its
  multiplicity, and a two-by-two array whose column \<open>i\<close> is an eigenvector of eigenvalue
  \<open>i\<close>, normalized to unit length.
\<close>

type_synonym eig_fun = "matrix \<Rightarrow> complex list \<times> matrix"

definition eig_ok :: "eig_fun \<Rightarrow> matrix \<Rightarrow> bool" where
  "eig_ok eig m =
     (case eig m of (w, v) \<Rightarrow>
        length w = 2 \<and> has_shape v 2 2 \<and>
        w ! 0 + w ! 1 = item m 0 0 + item m 1 1 \<and> w ! 0 * w ! 1 = det2 m \<and>
        dot m v = dot v (diag_m w) \<and>
        (cmod (item v 0 0))\<^sup>2 + (cmod (item v 1 0))\<^sup>2 = 1 \<and>
        (cmod (item v 0 1))\<^sup>2 + (cmod (item v 1 1))\<^sup>2 = 1)"

text \<open>
  The matrix \<open>r\<close> of \<open>_demultiplex_single_uc\<close>, from \<open>x = a.dot(_ct(b))\<close>.  The division by
  \<open>cmath.sqrt(det_x)\<close> raises ZeroDivisionError when that is zero.
\<close>

definition demultiplex_r :: "matrix \<Rightarrow> py_error + matrix" where
  "demultiplex_r x =
     (let det_x = det2 x
      in if csqrt det_x = 0 then Inl ZeroDivisionError
         else
           let x11 = item x 0 0 / csqrt det_x;
               phi = Arg det_x;
               r1 = exp (\<i> / 2 * complex_of_real (pi / 2 - phi / 2 - Arg x11));
               r2 = exp (\<i> / 2 * complex_of_real (pi / 2 - phi / 2 + Arg x11 + pi))
           in Inr [[r1, 0], [0, r2]])"

text \<open>
  \<open>_demultiplex_single_uc(a, b)\<close>, returning \<open>(v, u, r)\<close>.  \<open>np.flip(d, 0)\<close> reverses the
  vector of eigenvalues and \<open>np.flip(u, 1)\<close> the order of the columns.
\<close>

definition demultiplex_single_uc ::
  "eig_fun \<Rightarrow> matrix \<Rightarrow> matrix \<Rightarrow> py_error + matrix \<times> matrix \<times> matrix" where
  "demultiplex_single_uc eig a b =
     (let x = dot a (ct b)
      in bind (demultiplex_r x) (\<lambda>r.
           case eig (dot (dot r x) r) of (d, u) \<Rightarrow>
             let flipped = (cmod (d ! 0 + \<i>) < EPS);
                 d1 = (if flipped then rev d else d);
                 u1 = (if flipped then map rev u else u);
                 d2 = diag_m (map csqrt d1);
                 v = dot (dot (dot d2 (ct u1)) (ct r)) b
             in Inr (v, u1, r)))"

text \<open>
  The body of the innermost loop of \<open>_dec_ucg_help\<close> that merges \<open>r\<close> into the diagonal,
  for one \<open>ucg_index_2\<close>.
\<close>

definition merge_diag ::
  "matrix \<Rightarrow> nat \<Rightarrow> nat \<Rightarrow> nat \<Rightarrow> complex list \<Rightarrow> py_error + complex list" where
  "merge_diag r len_ucg i ucg_index_2 diag =
     (let shift_2 = ucg_index_2 * len_ucg;
          k = 2 * (i + shift_2)
      in bind (update_at diag k (\<lambda>x. x * item (ct r) 0 0 * item (rz (pi / 2)) 0 0)) (\<lambda>diag.
         bind (update_at diag (k + 1) (\<lambda>x. x * item (ct r) 1 1 * item (rz (pi / 2)) 0 0)) (\<lambda>diag.
         let k = len_ucg + k
         in bind (update_at diag k (\<lambda>x. x * (item r 0 0 * item (rz (pi / 2)) 1 1))) (\<lambda>diag.
            update_at diag (k + 1) (\<lambda>x. x * (item r 1 1 * item (rz (pi / 2)) 1 1))))))"

text \<open>The body of the loop over \<open>i\<close> in \<open>_dec_ucg_help\<close>, on the pair (gates, diagonal).\<close>

definition demultiplex_step ::
  "eig_fun \<Rightarrow> nat \<Rightarrow> nat \<Rightarrow> nat \<Rightarrow> nat \<Rightarrow> matrix list \<times> complex list
     \<Rightarrow> py_error + matrix list \<times> complex list" where
  "demultiplex_step eig num_contr dec_step ucg_index i s =
     (case s of (single_qubit_gates, diag) \<Rightarrow>
        let num_ucgs = 2 ^ dec_step;
            len_ucg = 2 ^ (num_contr - dec_step);
            shift = ucg_index * len_ucg
        in bind (get single_qubit_gates (shift + i)) (\<lambda>a.
           bind (get single_qubit_gates (shift + len_ucg div 2 + i)) (\<lambda>b.
           bind (demultiplex_single_uc eig a b) (\<lambda>(v, u, r).
           bind (update_at single_qubit_gates (shift + i) (\<lambda>g. v)) (\<lambda>gates.
           bind (update_at gates (shift + len_ucg div 2 + i) (\<lambda>g. u)) (\<lambda>gates.
             if ucg_index < num_ucgs - 1 then
               let k = shift + len_ucg + i
               in bind (update_at gates k
                          (\<lambda>g. scale (dot g (ct r)) (item (rz (pi / 2)) 0 0))) (\<lambda>gates.
                  let k = k + len_ucg div 2
                  in bind (update_at gates k
                             (\<lambda>g. scale (dot g r) (item (rz (pi / 2)) 1 1))) (\<lambda>gates.
                     Inr (gates, diag)))
             else
               bind (for_each [0..<num_ucgs] (merge_diag r len_ucg i) diag) (\<lambda>diag.
                 Inr (gates, diag))))))))"

text \<open>
  \<open>_dec_ucg_help\<close>: the three nested loops, from the gate's parameters and the all-ones
  diagonal of length \<open>2 ** num_qubits\<close>.
\<close>

definition dec_ucg_help :: "eig_fun \<Rightarrow> ucg_gate \<Rightarrow> py_error + matrix list \<times> complex list" where
  "dec_ucg_help eig self =
     (let num_contr = num_qubits self - 1
      in for_each [0..<num_contr] (\<lambda>dec_step.
           for_each [0..<2 ^ dec_step] (\<lambda>ucg_index.
             for_each [0..<2 ^ (num_contr - dec_step) div 2]
               (demultiplex_step eig num_contr dec_step ucg_index)))
           (params self, replicate (2 ^ num_qubits self) 1))"

text \<open>
  \<open>np.binary_repr(n)\<close> for a non-negative integer, \<open>s.rstrip('0')\<close>, and the number of
  trailing zeros the loop of \<open>_dec_ucg\<close> computes from them.
\<close>

fun binary_repr :: "nat \<Rightarrow> string" where
  "binary_repr n =
     (if n < 2 then [if n = 0 then CHR ''0'' else CHR ''1'']
      else binary_repr (n div 2) @ [if n mod 2 = 0 then CHR ''0'' else CHR ''1''])"

declare binary_repr.simps [simp del]

definition rstrip_0 :: "string \<Rightarrow> string" where
  "rstrip_0 s = rev (dropWhile (\<lambda>c. c = CHR ''0'') (rev s))"

definition num_trailing_zeros :: "nat \<Rightarrow> nat" where
  "num_trailing_zeros n = length (binary_repr n) - length (rstrip_0 (binary_repr n))"

text \<open>
  The circuit \<open>_dec_ucg\<close> builds over the register \<open>q\<close> of \<open>num_qubits\<close> qubits, as the list
  of its instructions with the register indices they act on: \<open>q_target = q[0]\<close> and
  \<open>q_controls = q[1:]\<close>.
\<close>

datatype instruction =
    U3 real real real "nat list"
  | Squ matrix nat
  | CX nat nat
  | Diag "complex list" "nat list"

text \<open>One turn of the loop that places the single-qubit gates and the C-NOTs.\<close>

definition place_gate :: "matrix list \<Rightarrow> nat list \<Rightarrow> nat \<Rightarrow> nat \<Rightarrow> instruction list
    \<Rightarrow> py_error + instruction list" where
  "place_gate single_qubit_gates q_controls q_target i circuit =
     bind (get single_qubit_gates i) (\<lambda>g.
       let squ =
             (if i = 0 then dot h_gate g
              else if i = length single_qubit_gates - 1 then dot (dot g (rz (pi / 2))) h_gate
              else dot (dot h_gate (dot g (rz (pi / 2)))) h_gate);
           circuit = circuit @ [Squ squ q_target];
           q_contr_index = num_trailing_zeros (i + 1)
       in if i \<noteq> length single_qubit_gates - 1
          then bind (get q_controls q_contr_index) (\<lambda>c. Inr (circuit @ [CX c q_target]))
          else Inr circuit)"

text \<open>
  \<open>_dec_ucg\<close>, returning the circuit and the diagonal.  \<open>euler_angles_1q\<close>
  (qiskit.quantum_info.synthesis) is a parameter of the model.
\<close>

definition dec_ucg ::
  "eig_fun \<Rightarrow> (matrix \<Rightarrow> real \<times> real \<times> real) \<Rightarrow> ucg_gate
     \<Rightarrow> py_error + instruction list \<times> complex list" where
  "dec_ucg eig euler_angles_1q self =
     (let diag = replicate (2 ^ num_qubits self) 1;
          q = [0..<num_qubits self];
          q_controls = tl q;
          q_target = 0
      in if length q_controls = 0 then
           bind (get (params self) 0) (\<lambda>g.
             case euler_angles_1q g of (theta, phi, lamb) \<Rightarrow>
               Inr ([U3 theta phi lamb q], diag))
         else
           bind (dec_ucg_help eig self) (\<lambda>(single_qubit_gates, diag).
           bind (for_each [0..<length single_qubit_gates]
                   (place_gate single_qubit_gates q_controls q_target) []) (\<lambda>circuit.
             if \<not> up_to_diagonal self then Inr (circuit @ [Diag diag q], diag)
             else Inr (circuit, diag))))"

text \<open>
  The matrix of the \<open>u3\<close> instruction (\<open>UGate.to_matrix\<close>, of which \<open>u3\<close> is the alias).
\<close>

definition u3_matrix :: "real \<Rightarrow> real \<Rightarrow> real \<Rightarrow> matrix" where
  "u3_matrix theta phi lam =
     [[complex_of_real (cos (theta / 2)),
       - exp (\<i> * complex_of_real lam) * complex_of_real (sin (theta / 2))],
      [exp (\<i> * complex_of_real phi) * complex_of_real (sin (theta / 2)),
       exp (\<i> * complex_of_real (phi + lam)) * complex_of_real (cos (theta / 2))]]"

text \<open>
  The input condition of the decomposition: a two-by-two array \<open>m\<close> with
  \<open>m\<^sup>\<dagger> m = I\<close>, exactly.
\<close>

definition unitary :: "matrix \<Rightarrow> bool" where
  "unitary m \<longleftrightarrow> has_shape m 2 2 \<and> dot (ct m) m = eye 2"

subsection \<open>Concrete eigensolvers for the examples\<close>

text \<open>
  On a diagonal matrix the eigenvalues are the diagonal entries and the unit vectors are
  eigenvectors; an eigensolver may return them in either order.
\<close>

definition example_eig :: eig_fun where
  "example_eig m = ([item m 0 0, item m 1 1], [[1, 0], [0, 1]])"

definition example_eig_flipped :: eig_fun where
  "example_eig_flipped m = ([item m 1 1, item m 0 0], [[0, 1], [1, 0]])"

text \<open>
  The state the loops of \<open>_dec_ucg_help\<close> keep for \<open>k\<close> controls: \<open>2 ^ k\<close> unitary gates and
  a diagonal of \<open>2 ^ (k + 1)\<close> entries.
\<close>

definition dec_invariant :: "nat \<Rightarrow> matrix list \<times> complex list \<Rightarrow> bool" where
  "dec_invariant k s =
     (case s of (gates, diag) \<Rightarrow>
        length gates = 2 ^ k \<and> list_all unitary gates \<and> length diag = 2 ^ Suc k)"

text \<open>
  The eigensolver honours its contract on every matrix the demultiplexer hands it for a
  pair of unitary gates.
\<close>

definition eig_contract :: "eig_fun \<Rightarrow> bool" where
  "eig_contract eig =
     (\<forall>a b r. unitary a \<and> unitary b \<and> demultiplex_r (dot a (ct b)) = Inr r
        \<longrightarrow> eig_ok eig (dot (dot r (dot a (ct b))) r))"

text \<open>
  What the claim says of leaf \<open>i\<close> of the assembled circuit, to be compared with the loop
  of \<open>_dec_ucg\<close>: the single-qubit gate on the target (register index 0) with the
  Hadamard and \<open>Rz(pi/2)\<close> gates absorbed, followed, except after the last leaf, by a
  C-NOT whose control is the control qubit number (trailing zeros of \<open>i + 1\<close>), that is
  register index one more.
\<close>

definition spec_leaf :: "matrix list \<Rightarrow> nat \<Rightarrow> instruction list" where
  "spec_leaf gates i =
     Squ (if i = 0 then dot h_gate (gates ! i)
          else if i = length gates - 1 then dot (dot (gates ! i) (rz (pi / 2))) h_gate
          else dot (dot h_gate (dot (gates ! i) (rz (pi / 2)))) h_gate) 0
     # (if i < length gates - 1 then [CX (Suc (num_trailing_zeros (Suc i))) 0] else [])"

text \<open>
  An eigensolver for the matrices the demultiplexer produces (unitary, trace 0 and
  determinant 1, so with eigenvalues \<open>i\<close> and \<open>-i\<close>): it returns the eigenvalues in the
  order \<open>(i, -i)\<close> with normalized eigenvectors read off the first row.
\<close>

definition example_eig_total :: eig_fun where
  "example_eig_total m =
     (let A = item m 0 0; B = item m 0 1
      in if 0 \<le> Im A then
           (let n = complex_of_real (sqrt ((cmod (A + \<i>))\<^sup>2 + (cmod B)\<^sup>2))
            in ([\<i>, - \<i>], [[(A + \<i>) / n, B / n], [- cnj B / n, - (A + \<i>) / n]]))
         else
           (let n = complex_of_real (sqrt ((cmod (\<i> - A))\<^sup>2 + (cmod B)\<^sup>2))
            in ([\<i>, - \<i>], [[B / n, (\<i> - A) / n], [(\<i> - A) / n, cnj B / n]])))"

text \<open>A gate on two controls: four identity matrices, the diagonal gate included.\<close>

definition example_ucg :: ucg_gate where
  "example_ucg = \<lparr>gate_name = ''UCG'', num_qubits = 3,
                   params = [eye 2, eye 2, eye 2, eye 2], up_to_diagonal = False\<rparr>"

section \<open>Properties of the basis choice\<close>

lemma kak_gates_cx_cz: "kak_gates (Some [''cx'', ''cz'']) = {''cx'', ''cz''}"
  by (auto simp: kak_gates_def or_empty_def kak_gate_names_def)

text \<open>
  C7, the two-qubit half.  With both \<open>cx\<close> and \<open>cz\<close> requested, \<open>_choose_kak_gate\<close> may
  return either gate: \<open>set.pop()\<close> follows no preference order, so the same basis set
  does not determine the chosen gate.
\<close>

theorem choose_kak_gate_arbitrary:
  "choose_kak_gate (Some [''cx'', ''cz'']) (Some CXGate) \<and>
   choose_kak_gate (Some [''cx'', ''cz'']) (Some CZGate)"
proof
  show "choose_kak_gate (Some [''cx'', ''cz'']) (Some CXGate)"
    by (rule pop_kak [where name = "''cx''"]) (simp_all add: kak_gates_cx_cz kak_gate_names_def)
  show "choose_kak_gate (Some [''cx'', ''cz'']) (Some CZGate)"
    by (rule pop_kak [where name = "''cz''"]) (simp_all add: kak_gates_cx_cz kak_gate_names_def)
qed

text \<open>
  The Euler half of the selector is a function, and it does return the first entry of
  the table whose gates are all requested, or \<open>None\<close> when there is none.
\<close>

lemma first_basis_Some:
  "first_basis tbl s = Some b \<Longrightarrow>
     \<exists>pre gs post. tbl = pre @ (b, gs) # post \<and> set gs \<subseteq> s \<and>
       (\<forall>(b', gs') \<in> set pre. \<not> set gs' \<subseteq> s)"
proof (induction tbl)
  case Nil then show ?case by simp
next
  case (Cons x tbl)
  obtain b0 g0 where x: "x = (b0, g0)" by (cases x)
  show ?case
  proof (cases "set g0 \<subseteq> s")
    case True
    with Cons.prems x have "b = b0" by simp
    with True x show ?thesis by (intro exI [of _ "[]"] exI [of _ g0] exI [of _ tbl]) simp
  next
    case False
    with Cons.prems x have "first_basis tbl s = Some b" by simp
    from Cons.IH [OF this] obtain pre gs post where
      "tbl = pre @ (b, gs) # post" "set gs \<subseteq> s" "\<forall>(b', gs') \<in> set pre. \<not> set gs' \<subseteq> s"
      by blast
    with False x show ?thesis
      by (intro exI [of _ "x # pre"] exI [of _ gs] exI [of _ post]) simp
  qed
qed

lemma first_basis_None:
  "first_basis tbl s = None \<longleftrightarrow> (\<forall>(b, gs) \<in> set tbl. \<not> set gs \<subseteq> s)"
  by (induction tbl) (auto split: if_splits)

lemma kak_gates_empty: "or_empty bg = [] \<Longrightarrow> kak_gates bg = {}"
  by (simp add: kak_gates_def)

lemma choose_kak_gate_empty: "or_empty bg = [] \<Longrightarrow> choose_kak_gate bg k \<Longrightarrow> k = None"
  by (auto elim!: choose_kak_gate.cases simp: kak_gates_empty)

lemma choose_euler_basis_empty: "or_empty bg = [] \<Longrightarrow> choose_euler_basis bg = None"
  by (simp add: choose_euler_basis_def euler_basis_names_def)

section \<open>Properties of the synthesis pass\<close>

subsection \<open>The calibration queries\<close>


lemma select_direction_returns:
  "\<exists>nd phys l. select_direction p qargs qlog = (Inr (nd, phys), l)"
  by (auto simp: select_direction_def Let_def gate_error_def gate_length_def duration_or_inf_def
      natural_direction_of_def split: option.splits sum.splits if_splits)




lemma example_direction:
  "select_direction (example_pass bg) [0, 1] [] =
     (Inr (Some [0, 1], Some (1 / 2)), [(''cx'', [0, 1]), (''cx'', [1, 0]), (''cx'', [0, 1])])"
  by (simp add: select_direction_def example_pass_def example_props_def gate_length_def
      gate_error_def duration_or_inf_def natural_direction_of_def Let_def)

lemma example_synth_2q:
  "synth_2q example_ext eb g (example_pass bg) (unitary_on [0, 1]) [] =
     (Inr (\<lparr>dag_ops = [(''2q'', [1, 0])], dag_wires = [0, 1]\<rparr>, Some [1, 0]),
      [(''cx'', [0, 1]), (''cx'', [1, 0]), (''cx'', [0, 1])])"
proof -
  have "node_qargs (unitary_on [0, 1]) = [0, 1]" "node_matrix (unitary_on [0, 1]) = identity4"
    by (simp_all add: unitary_on_def)
  moreover have "mirror identity4 = Inr identity4"
    by (simp add: mirror_def swap_1_2_def identity4_def)
  ultimately show ?thesis
    by (simp add: synth_2q_def example_direction [simplified] example_ext_def two_qubit_ops_def
        Let_def)
qed



subsection \<open>Direction and fidelity of a two-qubit node\<close>

lemma swap_1_2_error: "swap_1_2 xs = Inl e \<Longrightarrow> e = IndexError"
  by (auto simp: swap_1_2_def split: if_splits)

lemma swap_cols_error: "swap_cols m = Inl e \<Longrightarrow> e = IndexError"
  by (induction m arbitrary: e) (auto split: sum.splits dest: swap_1_2_error)

lemma mirror_error: "mirror m = Inl e \<Longrightarrow> e = IndexError"
  by (auto simp: mirror_def split: sum.splits dest: swap_1_2_error swap_cols_error)

lemma synth_2q_error: "synth_2q ext eb kak p node qlog = (Inl e, l') \<Longrightarrow> e = IndexError"
proof -
  assume a: "synth_2q ext eb kak p node qlog = (Inl e, l')"
  obtain nd phys l where sd: "select_direction p (node_qargs node) qlog = (Inr (nd, phys), l)"
    using select_direction_returns by blast
  from a sd show ?thesis
    by (auto simp: synth_2q_def Let_def split: option.splits list.splits if_splits sum.splits
        dest: mirror_error)
qed

lemma synth_node_error: "synth_node ext eb kak p node qlog = (Inl e, l') \<Longrightarrow> e = IndexError"
  by (auto simp: synth_node_def split: option.splits if_splits prod.splits sum.splits
      dest: synth_2q_error)

lemma run_nodes_error: "run_nodes ext eb kak p d qlog = (Inl e, l') \<Longrightarrow> e = IndexError"
proof (induction d arbitrary: qlog l')
  case Nil then show ?case by simp
next
  case (Cons x d)
  show ?case
  proof (cases x)
    case (Substituted s w)
    with Cons show ?thesis by (auto split: prod.splits sum.splits)
  next
    case (OpNode node)
    show ?thesis
    proof (cases "named_unitary_or_swap node")
      case False
      with OpNode Cons show ?thesis by (auto split: prod.splits sum.splits)
    next
      case True
      obtain r l where s: "synth_node ext eb kak p node qlog = (r, l)"
        by (cases "synth_node ext eb kak p node qlog")
      show ?thesis
      proof (cases r)
        case (Inl e')
        with s synth_node_error [of ext eb kak p node qlog e' l] have "e' = IndexError" by simp
        with Inl s OpNode True Cons.prems show ?thesis by simp
      next
        case (Inr v)
        with s OpNode True Cons.prems Cons.IH [of l] show ?thesis
          by (auto split: prod.splits sum.splits option.splits)
      qed
    qed
  qed
qed

text \<open>
  C8.  With a layout and backend properties present, the direction selection of a node
  on qubits \<open>q0\<close>, \<open>q1\<close> returns (it does not raise), and the natural direction is
  \<open>[0, 1]\<close> when the \<open>cx\<close> duration of \<open>(q0, q1)\<close> is strictly the smaller, \<open>[1, 0]\<close> when
  that of \<open>(q1, q0)\<close> is, and absent on a tie; a pair without a calibration entry counts
  as infinitely long, so the other direction wins, and with both missing there is no
  direction.  No run of the loop over a graph ends in \<open>BackendPropertyError\<close>.
\<close>

theorem natural_direction_by_duration:
  assumes "layout p" and "backend_props p = Some props"
  shows "(\<exists>nd phys l. select_direction p [q0, q1] qlog = (Inr (nd, phys), l) \<and>
           (case (props (''cx'', [q0, q1]), props (''cx'', [q1, q0])) of
              (Some a, Some b) \<Rightarrow>
                 nd = (if cal_duration a < cal_duration b then Some [0, 1]
                       else if cal_duration b < cal_duration a then Some [1, 0] else None)
            | (Some a, None) \<Rightarrow> nd = Some [0, 1]
            | (None, Some b) \<Rightarrow> nd = Some [1, 0]
            | (None, None) \<Rightarrow> nd = None)) \<and>
         fst (run_nodes ext eb kak p d qlog) \<noteq> Inl BackendPropertyError"
proof
  show "fst (run_nodes ext eb kak p d qlog) \<noteq> Inl BackendPropertyError"
    using run_nodes_error [of ext eb kak p d qlog BackendPropertyError]
    by (cases "run_nodes ext eb kak p d qlog") auto
  show "\<exists>nd phys l. select_direction p [q0, q1] qlog = (Inr (nd, phys), l) \<and>
           (case (props (''cx'', [q0, q1]), props (''cx'', [q1, q0])) of
              (Some a, Some b) \<Rightarrow>
                 nd = (if cal_duration a < cal_duration b then Some [0, 1]
                       else if cal_duration b < cal_duration a then Some [1, 0] else None)
            | (Some a, None) \<Rightarrow> nd = Some [0, 1]
            | (None, Some b) \<Rightarrow> nd = Some [1, 0]
            | (None, None) \<Rightarrow> nd = None)"
    using assms
    by (auto simp: select_direction_def Let_def gate_error_def gate_length_def duration_or_inf_def
        natural_direction_of_def split: option.splits)
qed

theorem natural_direction_by_duration_witness:
  "layout (example_pass None) \<and> backend_props (example_pass None) = Some example_props \<and>
   (\<exists>phys l. select_direction (example_pass None) [0, 1] [] = (Inr (Some [0, 1], phys), l)) \<and>
   (\<exists>phys l. select_direction (example_pass None) [1, 2] [] = (Inr (Some [1, 0], phys), l)) \<and>
   (\<exists>phys l. select_direction (example_pass None) [2, 3] [] = (Inr (None, phys), l)) \<and>
   fst (run_nodes example_ext None (Some CXGate) (example_pass None) [OpNode (unitary_on [2, 1])] [])
     \<noteq> Inl BackendPropertyError"
proof -
  have l: "layout (example_pass None)" and b: "backend_props (example_pass None) = Some example_props"
    by (simp_all add: example_pass_def)
  have p01: "example_props (''cx'', [0, 1]) = Some \<lparr>cal_duration = 1, cal_error = 1 / 2\<rparr>"
    and p10: "example_props (''cx'', [1, 0]) = Some \<lparr>cal_duration = 2, cal_error = 1 / 4\<rparr>"
    and p12: "example_props (''cx'', [1, 2]) = None"
    and p21: "example_props (''cx'', [2, 1]) = Some \<lparr>cal_duration = 3, cal_error = 1 / 8\<rparr>"
    and p23: "example_props (''cx'', [2, 3]) = None"
    and p32: "example_props (''cx'', [3, 2]) = None"
    by (simp_all add: example_props_def)
  note t01 = natural_direction_by_duration [OF l b, of 0 1 "[]" example_ext None "Some CXGate"
      "[OpNode (unitary_on [2, 1])]"]
  from t01 have d: "fst (run_nodes example_ext None (Some CXGate) (example_pass None)
                  [OpNode (unitary_on [2, 1])] []) \<noteq> Inl BackendPropertyError"
    by (rule conjunct2)
  from t01 obtain nd phys l0 where
    "select_direction (example_pass None) [0, 1] [] = (Inr (nd, phys), l0)" and
    "case (example_props (''cx'', [0, 1]), example_props (''cx'', [1, 0])) of
       (Some a, Some b) \<Rightarrow>
          nd = (if cal_duration a < cal_duration b then Some [0, 1]
                else if cal_duration b < cal_duration a then Some [1, 0] else None)
     | (Some a, None) \<Rightarrow> nd = Some [0, 1]
     | (None, Some b) \<Rightarrow> nd = Some [1, 0]
     | (None, None) \<Rightarrow> nd = None"
    by blast
  then have a: "\<exists>phys l. select_direction (example_pass None) [0, 1] [] = (Inr (Some [0, 1], phys), l)"
    by (simp del: One_nat_def add: p01 p10)
  from natural_direction_by_duration [OF l b, of 1 2 "[]" example_ext None None "[]"]
  obtain nd phys l0 where
    "select_direction (example_pass None) [1, 2] [] = (Inr (nd, phys), l0)" and
    "case (example_props (''cx'', [1, 2]), example_props (''cx'', [2, 1])) of
       (Some a, Some b) \<Rightarrow>
          nd = (if cal_duration a < cal_duration b then Some [0, 1]
                else if cal_duration b < cal_duration a then Some [1, 0] else None)
     | (Some a, None) \<Rightarrow> nd = Some [0, 1]
     | (None, Some b) \<Rightarrow> nd = Some [1, 0]
     | (None, None) \<Rightarrow> nd = None"
    by blast
  then have c: "\<exists>phys l. select_direction (example_pass None) [1, 2] [] = (Inr (Some [1, 0], phys), l)"
    by (simp del: One_nat_def add: p12 p21)
  from natural_direction_by_duration [OF l b, of 2 3 "[]" example_ext None None "[]"]
  obtain nd phys l0 where
    "select_direction (example_pass None) [2, 3] [] = (Inr (nd, phys), l0)" and
    "case (example_props (''cx'', [2, 3]), example_props (''cx'', [3, 2])) of
       (Some a, Some b) \<Rightarrow>
          nd = (if cal_duration a < cal_duration b then Some [0, 1]
                else if cal_duration b < cal_duration a then Some [1, 0] else None)
     | (Some a, None) \<Rightarrow> nd = Some [0, 1]
     | (None, Some b) \<Rightarrow> nd = Some [1, 0]
     | (None, None) \<Rightarrow> nd = None"
    by blast
  then have e: "\<exists>phys l. select_direction (example_pass None) [2, 3] [] = (Inr (None, phys), l)"
    by (simp del: One_nat_def add: p23 p32)
  from l b a c e d show ?thesis by blast
qed

lemma select_direction_phys:
  assumes "select_direction p qargs qlog = (Inr (nd, phys), l)"
  shows "case nd of None \<Rightarrow> phys = None
         | Some d \<Rightarrow> \<exists>props c. backend_props p = Some props \<and>
              props (''cx'', map (\<lambda>i. qargs ! i) d) = Some c \<and> phys = Some (1 - cal_error c)"
  using assms
  by (auto simp: select_direction_def Let_def gate_error_def
      split: option.splits sum.splits if_splits)

lemma synth_2q_result:
  assumes "fst (synth_2q ext eb kak p node qlog) = Inr (s, w)"
  shows "\<exists>nd phys l m. select_direction p (node_qargs node) qlog = (Inr (nd, phys), l) \<and>
           s = decomposer2q ext kak eb (pulse_optimize (Some kak) p) m (basis_fidelity p phys)"
proof -
  obtain nd phys l where sd: "select_direction p (node_qargs node) qlog = (Inr (nd, phys), l)"
    using select_direction_returns by blast
  with assms show ?thesis
    by (auto simp: synth_2q_def Let_def split: option.splits list.splits if_splits sum.splits)
qed

text \<open>
  C4, as the claim states it, fails twice.  With a requested fidelity of 3/4 and a natural
  direction whose calibrated error is 1/2, line 165 yields 3/4 and not the minimum 1/2.
  With neither a requested fidelity nor backend properties, line 165 yields \<open>None\<close> and
  not 1.
\<close>

theorem basis_fidelity_min_counterexample:
  "fst (select_direction (example_pass (Some [''cx''])) [0, 1] []) = Inr (Some [0, 1], Some (1 / 2)) \<and>
   basis_fidelity (example_pass (Some [''cx''])) (Some (1 / 2)) = Some (3 / 4) \<and>
   Some (3 / 4) \<noteq> Some (min (3 / 4) (1 / 2 :: real)) \<and>
   fst (select_direction unconfigured_pass [0, 1] []) = Inr (None, None) \<and>
   basis_fidelity unconfigured_pass None = None \<and>
   None \<noteq> Some (1 :: real)"
proof -
  have "basis_fidelity (example_pass (Some [''cx''])) (Some (1 / 2)) = Some (3 / 4)"
    by (simp add: basis_fidelity_def py_or_def truthy_def example_pass_def)
  moreover have "fst (select_direction unconfigured_pass [0, 1] []) = Inr (None, None)"
    by (simp add: select_direction_def unconfigured_pass_def)
  moreover have "basis_fidelity unconfigured_pass None = None"
    by (simp add: basis_fidelity_def py_or_def truthy_def unconfigured_pass_def)
  ultimately show ?thesis by (simp add: example_direction [simplified])
qed

text \<open>
  C4, amended.  Every graph the two-qubit branch synthesizes comes from a call of the
  decomposer whose basis fidelity is the requested fidelity whenever that is set and not
  zero, and the physical gate fidelity otherwise; the physical gate fidelity is
  \<open>1 - error\<close> of the \<open>cx\<close> entry of the natural direction when there is a natural
  direction, and \<open>None\<close> when there is none (so with neither, \<open>None\<close> is passed).
\<close>

theorem basis_fidelity_passed:
  assumes "fst (synth_2q ext eb kak p node qlog) = Inr (s, w)"
  shows "\<exists>nd phys l m. select_direction p (node_qargs node) qlog = (Inr (nd, phys), l) \<and>
           s = decomposer2q ext kak eb (pulse_optimize (Some kak) p) m
                 (if truthy (fidelity p) then fidelity p else phys) \<and>
           (case nd of None \<Rightarrow> phys = None
            | Some d \<Rightarrow> \<exists>props c. backend_props p = Some props \<and>
                props (''cx'', map (\<lambda>i. node_qargs node ! i) d) = Some c \<and>
                phys = Some (1 - cal_error c))"
proof -
  from synth_2q_result [OF assms] obtain nd phys l m where
    sd: "select_direction p (node_qargs node) qlog = (Inr (nd, phys), l)" and
    s: "s = decomposer2q ext kak eb (pulse_optimize (Some kak) p) m (basis_fidelity p phys)"
    by blast
  from select_direction_phys [OF sd] sd s show ?thesis
    by (auto simp: basis_fidelity_def py_or_def)
qed

theorem basis_fidelity_passed_witness:
  "fst (synth_2q example_ext None CXGate (example_pass (Some [''cx''])) (unitary_on [0, 1]) [])
     = Inr (\<lparr>dag_ops = [(''2q'', [1, 0])], dag_wires = [0, 1]\<rparr>, Some [1, 0]) \<and>
   (\<exists>nd phys l m.
      select_direction (example_pass (Some [''cx''])) (node_qargs (unitary_on [0, 1])) []
        = (Inr (nd, phys), l) \<and>
      \<lparr>dag_ops = [(''2q'', [1, 0])], dag_wires = [0, 1]\<rparr>
        = decomposer2q example_ext CXGate None (pulse_optimize (Some CXGate) (example_pass (Some [''cx''])))
            m (if truthy (fidelity (example_pass (Some [''cx''])))
               then fidelity (example_pass (Some [''cx''])) else phys) \<and>
      (case nd of None \<Rightarrow> phys = None
       | Some d \<Rightarrow> \<exists>props c. backend_props (example_pass (Some [''cx''])) = Some props \<and>
           props (''cx'', map (\<lambda>i. node_qargs (unitary_on [0, 1]) ! i) d) = Some c \<and>
           phys = Some (1 - cal_error c)))"
proof -
  have h: "fst (synth_2q example_ext None CXGate (example_pass (Some [''cx''])) (unitary_on [0, 1]) [])
     = Inr (\<lparr>dag_ops = [(''2q'', [1, 0])], dag_wires = [0, 1]\<rparr>, Some [1, 0])"
    by (simp add: example_synth_2q [simplified])
  from basis_fidelity_passed [OF h] h show ?thesis by blast
qed

subsection \<open>No basis available\<close>

lemma synth_node_no_basis:
  "synth_node ext None None p node qlog =
     (if length (node_qargs node) = 1 \<or> length (node_qargs node) = 2 then (Inr None, qlog)
      else (Inr (Some (isometry ext (node_matrix node), None)), qlog))"
  by (simp add: synth_node_def)

lemma run_nodes_no_basis:
  "run_nodes ext None None p d qlog = (Inr (map (substitute_wide ext) d), qlog)"
proof (induction d)
  case Nil then show ?case by simp
next
  case (Cons e d)
  then show ?case
    by (cases e) (simp_all add: substitute_wide_def synth_node_no_basis)
qed

lemma map_substitute_wide_id:
  "(\<forall>node. OpNode node \<in> set d \<and> named_unitary_or_swap node
       \<longrightarrow> length (node_qargs node) = 1 \<or> length (node_qargs node) = 2)
   \<Longrightarrow> map (substitute_wide ext) d = d"
  by (induction d) (auto simp: substitute_wide_def split: dag_entry.splits)

text \<open>
  C9, as the claim states it, fails: with the empty basis-gate list, a graph of one
  unitary node on three qubits comes back with that node replaced by its isometry
  synthesis.
\<close>

theorem empty_basis_counterexample:
  "run example_ext (example_pass (Some [])) [OpNode (unitary_on [0, 1, 2])]
     (Inr [Substituted (isometry example_ext identity4) None], []) \<and>
   [Substituted (isometry example_ext identity4) None] \<noteq> [OpNode (unitary_on [0, 1, 2])]"
proof -
  have k: "choose_kak_gate (basis_gates (example_pass (Some []))) None"
    by (rule no_kak) (simp add: kak_gates_def or_empty_def example_pass_def)
  have "run_nodes example_ext (choose_euler_basis (basis_gates (example_pass (Some [])))) None
          (example_pass (Some [])) [OpNode (unitary_on [0, 1, 2])] []
        = (Inr [Substituted (isometry example_ext identity4) None], [])"
    by (simp add: synth_node_def unitary_on_def named_unitary_or_swap_def)
  with run_chosen [OF k, of example_ext "[OpNode (unitary_on [0, 1, 2])]"] show ?thesis by simp
qed

text \<open>
  C9, amended.  With no basis gate requested (the empty list or \<open>None\<close>) the pass makes no
  calibration query and returns the graph in which exactly the unitary and swap nodes on
  neither one nor two qubits are replaced by their isometry synthesis; so a graph whose
  unitary and swap nodes are all on one or two qubits is returned unchanged.
\<close>

theorem run_empty_basis:
  assumes "or_empty (basis_gates p) = []" and "run ext p d r"
  shows "r = (Inr (map (substitute_wide ext) d), []) \<and>
         ((\<forall>node. OpNode node \<in> set d \<and> named_unitary_or_swap node
              \<longrightarrow> length (node_qargs node) = 1 \<or> length (node_qargs node) = 2)
          \<longrightarrow> r = (Inr d, []))"
proof -
  from assms(2) obtain kak where k: "choose_kak_gate (basis_gates p) kak"
    and r: "r = run_nodes ext (choose_euler_basis (basis_gates p)) kak p d []"
    by (auto elim: run.cases)
  from k assms(1) have "kak = None" by (rule choose_kak_gate_empty [rotated])
  with r assms(1) have "r = (Inr (map (substitute_wide ext) d), [])"
    by (simp add: choose_euler_basis_empty run_nodes_no_basis)
  then show ?thesis by (simp add: map_substitute_wide_id)
qed

theorem run_empty_basis_witness:
  "run example_ext (example_pass (Some []))
     [OpNode (unitary_on [0, 1, 2]), OpNode (unitary_on [0]), OpNode (unitary_on [0, 1])]
     (Inr [Substituted (isometry example_ext identity4) None, OpNode (unitary_on [0]),
           OpNode (unitary_on [0, 1])], []) \<and>
   run example_ext (example_pass None) [OpNode (unitary_on [0]), OpNode (unitary_on [0, 1])]
     (Inr [OpNode (unitary_on [0]), OpNode (unitary_on [0, 1])], [])"
proof -
  have e1: "or_empty (basis_gates (example_pass (Some []))) = []"
    by (simp add: or_empty_def example_pass_def)
  have e2: "or_empty (basis_gates (example_pass None)) = []"
    by (simp add: or_empty_def example_pass_def)
  have k1: "choose_kak_gate (basis_gates (example_pass (Some []))) None"
    by (rule no_kak) (simp add: kak_gates_empty e1)
  have k2: "choose_kak_gate (basis_gates (example_pass None)) None"
    by (rule no_kak) (simp add: kak_gates_empty e2)
  note r1 = run_chosen [OF k1, of example_ext
      "[OpNode (unitary_on [0, 1, 2]), OpNode (unitary_on [0]), OpNode (unitary_on [0, 1])]"]
  note r2 = run_chosen [OF k2, of example_ext "[OpNode (unitary_on [0]), OpNode (unitary_on [0, 1])]"]
  have n: "\<forall>node. OpNode node \<in> set [OpNode (unitary_on [0]), OpNode (unitary_on [0, 1])]
             \<and> named_unitary_or_swap node
           \<longrightarrow> length (node_qargs node) = 1 \<or> length (node_qargs node) = 2"
    by (auto simp: unitary_on_def)
  from run_empty_basis [OF e1 r1]
  have a: "run_nodes example_ext (choose_euler_basis (basis_gates (example_pass (Some [])))) None
          (example_pass (Some []))
          [OpNode (unitary_on [0, 1, 2]), OpNode (unitary_on [0]), OpNode (unitary_on [0, 1])] []
     = (Inr [Substituted (isometry example_ext identity4) None, OpNode (unitary_on [0]),
             OpNode (unitary_on [0, 1])], [])"
    by (simp add: substitute_wide_def unitary_on_def named_unitary_or_swap_def)
  from run_empty_basis [OF e2 r2] n
  have b: "run_nodes example_ext (choose_euler_basis (basis_gates (example_pass None))) None
          (example_pass None) [OpNode (unitary_on [0]), OpNode (unitary_on [0, 1])] []
     = (Inr [OpNode (unitary_on [0]), OpNode (unitary_on [0, 1])], [])"
    by blast
  from r1 r2 a b show ?thesis by simp
qed

section \<open>Properties of the matrix utilities and of the constructor\<close>

lemma upt_0_2: "[0..<2] = [0, Suc 0]"
  by (simp add: numeral_2_eq_2)

lemma has_shape_2_2: "has_shape m 2 2 \<longleftrightarrow> (\<exists>a b c d. m = [[a, b], [c, d]])"
proof
  assume "has_shape m 2 2"
  then have l: "length m = 2" and r: "\<forall>row \<in> set m. length row = 2"
    by (auto simp: has_shape_def list_all_iff)
  from l obtain r0 r1 where m: "m = [r0, r1]"
    by (auto simp: length_Suc_conv numeral_2_eq_2)
  with r have "length r0 = 2" "length r1 = 2" by auto
  then obtain a b c d where "r0 = [a, b]" "r1 = [c, d]"
    by (auto simp: length_Suc_conv numeral_2_eq_2)
  with m show "\<exists>a b c d. m = [[a, b], [c, d]]" by blast
next
  assume "\<exists>a b c d. m = [[a, b], [c, d]]"
  then show "has_shape m 2 2" by (auto simp: has_shape_def)
qed

lemma ct_2x2: "ct [[a, b], [c, d]] = [[cnj a, cnj c], [cnj b, cnj d]]"
  by (simp add: ct_def transpose_m_def ncols_def col_def upt_0_2)

lemma dot_2x2:
  "dot [[a, b], [c, d]] [[e, f], [g, h]] =
     [[a * e + b * g, a * f + b * h], [c * e + d * g, c * f + d * h]]"
  by (simp add: dot_def ncols_def col_def upt_0_2)

lemma eye_2: "eye 2 = [[1, 0], [0, 1]]"
  by (simp add: eye_def upt_0_2)

lemma sub_2x2: "sub [[a, b], [c, d]] [[e, f], [g, h]] = [[a - e, b - f], [c - g, d - h]]"
  by (simp add: sub_def)

lemma norm_fro_2x2:
  "norm_fro [[a, b], [c, d]] = sqrt ((cmod a)\<^sup>2 + (cmod b)\<^sup>2 + (cmod c)\<^sup>2 + (cmod d)\<^sup>2)"
  by (simp add: norm_fro_def)

lemma isclose_zero:
  assumes "0 \<le> x" and "0 \<le> eps"
  shows "isclose x 0 (1 / 10 ^ 9) eps = Inr (x \<le> eps)"
proof (cases "x = 0")
  case True
  with assms show ?thesis by (simp add: isclose_def)
next
  case False
  with assms have pos: "0 < x" by simp
  have "x / 10 ^ 9 < x" using pos by simp
  then have "\<not> x \<le> \<bar>1 / 10 ^ 9 * x\<bar>" using pos by (simp add: abs_mult)
  with pos assms show ?thesis by (simp add: isclose_def)
qed

lemma norm_fro_nonneg: "0 \<le> norm_fro m"
  unfolding norm_fro_def by (intro real_sqrt_ge_zero sum_list_nonneg) auto

lemma is_isometry_le: "0 \<le> eps \<Longrightarrow> is_isometry m eps = Inr (isometry_err m \<le> eps)"
  unfolding is_isometry_def isometry_err_def by (rule isclose_zero [OF norm_fro_nonneg])

lemma log2_pow: "log 2 (real ((2::nat) ^ k)) = real k"
  by (simp add: log_nat_power)

lemma log2_int_iff:
  assumes "n > 0"
  shows "log 2 (real n) \<in> \<int> \<longleftrightarrow> (\<exists>k. n = 2 ^ k)"
proof
  assume "log 2 (real n) \<in> \<int>"
  then obtain z :: int where z: "log 2 (real n) = of_int z" by (auto elim: Ints_cases)
  from assms have "1 \<le> real n" by simp
  then have "0 \<le> log 2 (real n)" by simp
  with z have "0 \<le> z" by simp
  then obtain k where k: "z = int k" using nonneg_int_cases by blast
  from assms have "real n = 2 powr (log 2 (real n))" by simp
  also have "\<dots> = 2 powr (real k)" using z k by simp
  also have "\<dots> = 2 ^ k" by (simp add: powr_realpow)
  finally have "real n = real (2 ^ k)" by simp
  then have "n = 2 ^ k" using of_nat_eq_iff by blast
  then show "\<exists>k. n = 2 ^ k" ..
next
  assume "\<exists>k. n = 2 ^ k"
  then obtain k where "n = 2 ^ k" ..
  then show "log 2 (real n) \<in> \<int>" by (simp add: log_nat_power)
qed

lemma log2_nonneg: "n > 0 \<Longrightarrow> 0 \<le> log 2 (real n)"
  by simp

lemma EPS_pos: "0 < EPS" by (simp add: EPS_def)

lemma check_shapes_eq:
  "check_shapes gl =
     (if \<forall>g \<in> set gl. has_shape g 2 2 then Inr ()
      else Inl (QiskitError ''The dimension of a controlled gate is not equal to (2,2).''))"
  by (induction gl) auto

lemma check_unitary_eq:
  "check_unitary gl =
     (if \<forall>g \<in> set gl. isometry_err g \<le> EPS then Inr ()
      else Inl (QiskitError ''A controlled gate is not unitary.''))"
  using EPS_pos by (induction gl) (auto simp: is_isometry_le)

lemma math_log2_pos: "0 < n \<Longrightarrow> math_log2 n = Inr (log 2 (real n))"
  by (simp add: math_log2_def)

lemma UCG_eq:
  "UCG gl utd =
     (if \<exists>g \<in> set gl. \<not> has_shape g 2 2
        then Inl (QiskitError ''The dimension of a controlled gate is not equal to (2,2).'')
      else if gl = [] then Inl (QiskitError ''The gate list cannot be empty.'')
      else if \<nexists>k. length gl = 2 ^ k then Inl (QiskitError not_power_of_2)
      else if \<exists>g \<in> set gl. EPS < isometry_err g
        then Inl (QiskitError ''A controlled gate is not unitary.'')
      else Inr \<lparr>gate_name = ''UCG'', num_qubits = nat \<lfloor>log 2 (real (length gl))\<rfloor> + 1,
                params = gl, up_to_diagonal = utd\<rparr>)"
proof (cases "gl = []")
  case True
  then show ?thesis by (simp add: UCG_def)
next
  case False
  then have pos: "0 < length gl" by simp
  have nn: "\<not> log 2 (real (length gl)) < 0" using log2_nonneg [OF pos] by simp
  show ?thesis
    using False pos nn log2_int_iff [OF pos]
    by (auto simp: UCG_def check_shapes_eq check_unitary_eq math_log2_pos not_le)
qed

lemma UCG_valid:
  assumes "\<forall>g \<in> set gl. has_shape g 2 2 \<and> isometry_err g \<le> EPS" and "length gl = 2 ^ k"
  shows "UCG gl utd = Inr \<lparr>gate_name = ''UCG'', num_qubits = k + 1, params = gl, up_to_diagonal = utd\<rparr>"
proof -
  from assms(2) have "gl \<noteq> []" by auto
  moreover have "nat \<lfloor>log 2 (real (length gl))\<rfloor> = k" using assms(2) by (simp add: log_nat_power)
  ultimately show ?thesis using assms by (auto simp: UCG_eq not_less)
qed

lemma ucg_eq:
  assumes "gl \<noteq> []"
  shows "ucg self gl qc qt utd =
     (if \<nexists>k. length gl = 2 ^ k then Inl (QiskitError not_power_of_2)
      else if length gl \<noteq> 2 ^ length qc then
        Inl (QiskitError
          ''Number of controlled gates does not correspond to the number of control-qubits.'')
      else (case UCG gl utd of Inl e \<Rightarrow> Inl e | Inr gate \<Rightarrow> Inr (self @ [(gate, qt # qc)])))"
proof -
  from assms have pos: "0 < length gl" by simp
  have nn: "\<not> log 2 (real (length gl)) < 0" using log2_nonneg [OF pos] by simp
  have eq: "log 2 (real (length gl)) = real (length qc) \<longleftrightarrow> length gl = 2 ^ length qc"
    if "\<exists>k. length gl = 2 ^ k"
  proof -
    from that obtain k where k: "length gl = 2 ^ k" ..
    then have "log 2 (real (length gl)) = real k" by (simp add: log_nat_power)
    with k show ?thesis by auto
  qed
  show ?thesis
    using pos nn log2_int_iff [OF pos] eq
    by (auto simp: ucg_def math_log2_pos)
qed

text \<open>
  Every defect of the gate list makes \<open>UCG.__init__\<close> raise a QiskitError with its message,
  so that no gate object is returned: an empty list, an entry not of shape (2, 2), a length
  that is no power of two, an entry whose isometry error exceeds \<open>_EPS\<close>.  Such a list,
  or one whose length is not \<open>2 ^ len(q_controls)\<close>, makes \<open>circuit.ucg\<close> raise before
  anything is appended to the circuit; it raises a QiskitError when the list is not empty.
\<close>

theorem UCG_rejects_malformed:
  "(gl = [] \<or> (\<exists>g \<in> set gl. \<not> has_shape g 2 2) \<or> (\<nexists>k. length gl = 2 ^ k)
      \<or> (\<exists>g \<in> set gl. EPS < isometry_err g)
    \<longrightarrow> (\<exists>msg. UCG gl utd = Inl (QiskitError msg))) \<and>
   (gl = [] \<or> (\<exists>g \<in> set gl. \<not> has_shape g 2 2) \<or> (\<nexists>k. length gl = 2 ^ k)
      \<or> (\<exists>g \<in> set gl. EPS < isometry_err g) \<or> length gl \<noteq> 2 ^ length q_controls
    \<longrightarrow> (\<exists>e. ucg self gl q_controls q_target utd = Inl e) \<and>
        (gl \<noteq> [] \<longrightarrow> (\<exists>msg. ucg self gl q_controls q_target utd = Inl (QiskitError msg))))"
proof -
  let ?bad = "gl = [] \<or> (\<exists>g \<in> set gl. \<not> has_shape g 2 2) \<or> (\<nexists>k. length gl = 2 ^ k)
      \<or> (\<exists>g \<in> set gl. EPS < isometry_err g)"
  have a: "\<exists>msg. UCG gl utd = Inl (QiskitError msg)" if "?bad"
    using that by (auto simp: UCG_eq)
  have b: "\<exists>msg. ucg self gl q_controls q_target utd = Inl (QiskitError msg)"
    if m: "?bad \<or> length gl \<noteq> 2 ^ length q_controls" and ne: "gl \<noteq> []"
  proof (cases "?bad")
    case True
    from a [OF True] show ?thesis by (auto simp: ucg_eq [OF ne])
  next
    case False
    with m have "length gl \<noteq> 2 ^ length q_controls" by blast
    then show ?thesis by (auto simp: ucg_eq [OF ne])
  qed
  have c: "\<exists>e. ucg self gl q_controls q_target utd = Inl e"
    if m: "?bad \<or> length gl \<noteq> 2 ^ length q_controls"
  proof (cases "gl = []")
    case True
    then show ?thesis by (simp add: ucg_def math_log2_def)
  next
    case False
    from b [OF m False] show ?thesis by blast
  qed
  from a b c show ?thesis by blast
qed

lemma three_not_power_of_2: "(3::nat) \<noteq> 2 ^ k"
proof (cases k)
  case 0 then show ?thesis by simp
next
  case (Suc j)
  have "even ((2::nat) ^ Suc j)" by simp
  moreover have "odd (3::nat)" by simp
  ultimately show ?thesis using Suc by metis
qed

lemma ncols_2x2: "ncols [[a, b], [c, d]] = 2"
  by (simp add: ncols_def)

lemma isometry_err_2x2:
  "isometry_err [[a, b], [c, d]] =
     norm_fro [[cnj a * a + cnj c * c - 1, cnj a * b + cnj c * d],
               [cnj b * a + cnj d * c, cnj b * b + cnj d * d - 1]]"
  by (simp only: isometry_err_def ct_2x2 dot_2x2 ncols_2x2 eye_2 sub_2x2 diff_zero)

lemma isometry_err_example: "isometry_err [[2, 0], [0, 1]] = 3"
proof -
  have "isometry_err [[2, 0], [0, 1]] = sqrt (3\<^sup>2)"
    by (simp add: isometry_err_2x2 norm_fro_2x2)
  then show ?thesis by simp
qed

theorem UCG_rejects_malformed_witness:
  "(\<exists>msg. UCG [] False = Inl (QiskitError msg)) \<and>
   (\<exists>msg. UCG [[[1]]] False = Inl (QiskitError msg)) \<and>
   (\<exists>msg. UCG [eye 2, eye 2, eye 2] False = Inl (QiskitError msg)) \<and>
   (\<exists>msg. UCG [[[2, 0], [0, 1]]] False = Inl (QiskitError msg)) \<and>
   (\<exists>msg. ucg [] [eye 2, eye 2] [1, 2] 0 False = Inl (QiskitError msg))"
proof -
  have 1: "\<exists>msg. UCG [] False = Inl (QiskitError msg)"
    using UCG_rejects_malformed [of "[]" False "[]" "[]" 0] by simp
  have "\<not> has_shape [[1]] 2 2" by (simp add: has_shape_def)
  then have 2: "\<exists>msg. UCG [[[1]]] False = Inl (QiskitError msg)"
    using UCG_rejects_malformed [of "[[[1]]]" False "[]" "[]" 0] by simp
  have "\<nexists>k. length [eye 2, eye 2, eye 2] = 2 ^ k"
    using three_not_power_of_2 [unfolded numeral_3_eq_3] by simp
  then have 3: "\<exists>msg. UCG [eye 2, eye 2, eye 2] False = Inl (QiskitError msg)"
    using UCG_rejects_malformed [of "[eye 2, eye 2, eye 2]" False "[]" "[]" 0] by blast
  have "EPS < isometry_err [[2, 0], [0, 1]]"
    by (simp add: isometry_err_example EPS_def)
  then have 4: "\<exists>msg. UCG [[[2, 0], [0, 1]]] False = Inl (QiskitError msg)"
    using UCG_rejects_malformed [of "[[[2, 0], [0, 1]]]" False "[]" "[]" 0] by simp
  have "length [eye 2, eye 2] \<noteq> 2 ^ length [1 :: nat, 2]" by simp
  then have 5: "\<exists>msg. ucg [] [eye 2, eye 2] [1, 2] 0 False = Inl (QiskitError msg)"
    using UCG_rejects_malformed [of "[eye 2, eye 2]" False "[1, 2]" "[]" 0] by blast
  from 1 2 3 4 5 show ?thesis by blast
qed


text \<open>
  C5 at the empty list.  \<open>UCG.__init__\<close> tests for the empty list before it takes the
  logarithm and raises the QiskitError "The gate list cannot be empty."; \<open>circuit.ucg\<close>
  takes \<open>math.log2(len(gate_list))\<close> first, so the empty list leaves it as the ValueError
  "math domain error" of \<open>math.log2(0)\<close>, whatever the control qubits.
\<close>

theorem ucg_empty_list_math_domain_error:
  "ucg self [] q_controls q_target utd = Inl (ValueError ''math domain error'') \<and>
   UCG [] utd = Inl (QiskitError ''The gate list cannot be empty.'')"
  by (simp add: ucg_def UCG_def math_log2_def)

section \<open>The trailing zeros of the binary representation\<close>

lemma rstrip_0_snoc:
  "rstrip_0 (s @ [c]) = (if c = CHR ''0'' then rstrip_0 s else s @ [c])"
  by (simp add: rstrip_0_def)

lemma length_rstrip_0: "length (rstrip_0 s) \<le> length s"
  by (simp add: rstrip_0_def length_dropWhile_le [of _ "rev s", simplified])

lemma binary_repr_1: "binary_repr (Suc 0) = ''1''"
  by (subst binary_repr.simps) simp

lemma num_trailing_zeros_1: "num_trailing_zeros (Suc 0) = 0"
  by (simp add: num_trailing_zeros_def rstrip_0_def binary_repr_1)

lemma num_trailing_zeros_rec:
  assumes "2 \<le> n"
  shows "num_trailing_zeros n = (if even n then Suc (num_trailing_zeros (n div 2)) else 0)"
proof -
  from assms have b: "binary_repr n =
      binary_repr (n div 2) @ [if n mod 2 = 0 then CHR ''0'' else CHR ''1'']"
    by (subst binary_repr.simps) simp
  show ?thesis
  proof (cases "even n")
    case True
    then have "n mod 2 = 0" by presburger
    with b have "num_trailing_zeros n =
        Suc (length (binary_repr (n div 2))) - length (rstrip_0 (binary_repr (n div 2)))"
      by (simp add: num_trailing_zeros_def rstrip_0_snoc)
    with True length_rstrip_0 [of "binary_repr (n div 2)"] show ?thesis
      by (simp add: num_trailing_zeros_def Suc_diff_le)
  next
    case False
    then have "n mod 2 \<noteq> 0" by presburger
    with b False show ?thesis by (simp add: num_trailing_zeros_def rstrip_0_snoc)
  qed
qed

lemma num_trailing_zeros_dvd:
  "0 < n \<Longrightarrow> 2 ^ num_trailing_zeros n dvd n \<and> \<not> 2 ^ Suc (num_trailing_zeros n) dvd n"
proof (induction n rule: less_induct)
  case (less n)
  show ?case
  proof (cases "n = 1")
    case True
    then show ?thesis by (simp add: num_trailing_zeros_1)
  next
    case False
    with less.prems have n2: "2 \<le> n" by simp
    show ?thesis
    proof (cases "even n")
      case False
      with n2 show ?thesis by (simp add: num_trailing_zeros_rec)
    next
      case True
      then obtain m where m: "n = 2 * m" by (auto elim: evenE)
      with less.prems have "0 < m" "m < n" by simp_all
      from less.IH [OF this(2) this(1)] m True n2 show ?thesis
        by (simp add: num_trailing_zeros_rec)
    qed
  qed
qed

lemma num_trailing_zeros_less:
  assumes "0 < n" and "n < 2 ^ k"
  shows "num_trailing_zeros n < k"
proof (rule ccontr)
  assume "\<not> num_trailing_zeros n < k"
  then have "k \<le> num_trailing_zeros n" by simp
  then have "(2::nat) ^ k dvd 2 ^ num_trailing_zeros n" by (rule le_imp_power_dvd)
  with num_trailing_zeros_dvd [OF assms(1)] have "2 ^ k dvd n" by (blast intro: dvd_trans)
  with assms show False by (auto dest: dvd_imp_le)
qed

section \<open>Unitary two-by-two matrices\<close>

lemma unitary_2x2:
  "unitary [[a, b], [c, d]] \<longleftrightarrow>
     cnj a * a + cnj c * c = 1 \<and> cnj a * b + cnj c * d = 0 \<and>
     cnj b * a + cnj d * c = 0 \<and> cnj b * b + cnj d * d = 1"
  by (simp add: unitary_def has_shape_def ct_2x2 dot_2x2 eye_2)

lemma unitaryE:
  assumes "unitary m"
  obtains a b c d where "m = [[a, b], [c, d]]"
    and "cnj a * a + cnj c * c = 1" and "cnj a * b + cnj c * d = 0"
    and "cnj b * a + cnj d * c = 0" and "cnj b * b + cnj d * d = 1"
proof -
  from assms have "has_shape m 2 2" by (simp add: unitary_def)
  then obtain a b c d where m: "m = [[a, b], [c, d]]" by (auto simp: has_shape_2_2)
  with assms show ?thesis using that by (simp add: unitary_2x2)
qed

lemma unitary_det_entries:
  assumes "cnj a * a + cnj c * c = 1" and "cnj a * b + cnj c * d = (0::complex)"
    and "cnj b * a + cnj d * c = 0" and "cnj b * b + cnj d * d = 1"
  shows "d = (a * d - b * c) * cnj a" and "c = - (a * d - b * c) * cnj b"
  using assms by algebra+

lemma unitary_det_unit:
  assumes 1: "cnj a * a + cnj c * c = 1" and 2: "cnj a * b + cnj c * d = (0::complex)"
    and 3: "cnj b * a + cnj d * c = 0" and 4: "cnj b * b + cnj d * d = 1"
  shows "cnj (a * d - b * c) * (a * d - b * c) = 1" and "a * cnj a + b * cnj b = 1"
proof -
  define D where "D = a * d - b * c"
  have d: "d = D * cnj a" and c: "c = - D * cnj b"
    unfolding D_def by (rule unitary_det_entries [OF assms])+
  have "cnj d = cnj (D * cnj a)" using d by simp
  then have cd: "cnj d = cnj D * a" by simp
  have "cnj c = cnj (- D * cnj b)" using c by simp
  then have cc: "cnj c = - cnj D * b" by simp
  have D_ne: "D \<noteq> 0"
  proof
    assume "D = 0"
    with d c have "d = 0" "c = 0" by simp_all
    with 1 2 4 have "cnj a * a = 1" "cnj a * b = 0" "cnj b * b = 1" by simp_all
    then show False by auto
  qed
  have "a * d - b * c = a * (D * cnj a) - b * (- D * cnj b)"
    using d c by simp
  then have "D = D * (a * cnj a + b * cnj b)"
    by (simp add: D_def algebra_simps)
  with D_ne show r1: "a * cnj a + b * cnj b = 1" by simp
  have "cnj a * a + (- cnj D * b) * (- D * cnj b) = 1" using 1 cc c by simp
  then have e1: "cnj a * a + (cnj D * D) * (b * cnj b) = 1" by (simp add: algebra_simps)
  have "cnj b * b + (cnj D * a) * (D * cnj a) = 1" using 4 cd d by simp
  then have e2: "cnj b * b + (cnj D * D) * (a * cnj a) = 1" by (simp add: algebra_simps)
  have "(cnj D * D - 1) * (a * cnj a + b * cnj b) =
        (cnj a * a + (cnj D * D) * (b * cnj b)) + (cnj b * b + (cnj D * D) * (a * cnj a))
          - 2 * (a * cnj a + b * cnj b)"
    by (simp add: algebra_simps)
  with e1 e2 r1 have "cnj D * D - 1 = 0" by simp
  then show "cnj (a * d - b * c) * (a * d - b * c) = 1" by (simp add: D_def)
qed

lemma has_shape_2x2 [simp]: "has_shape [[a, b], [c, d]] 2 2"
  by (simp add: has_shape_def)

lemma shape2E:
  assumes "has_shape m 2 2"
  obtains a b c d where "m = [[a, b], [c, d]]"
  using assms by (auto simp: has_shape_2_2)

lemma has_shape_dot: "has_shape a 2 2 \<Longrightarrow> has_shape b 2 2 \<Longrightarrow> has_shape (dot a b) 2 2"
  by (auto elim!: shape2E simp: dot_2x2)

lemma has_shape_ct: "has_shape a 2 2 \<Longrightarrow> has_shape (ct a) 2 2"
  by (auto elim!: shape2E simp: ct_2x2)

lemma scale_2x2: "scale [[a, b], [c, d]] k = [[a * k, b * k], [c * k, d * k]]"
  by (simp add: scale_def)

lemma has_shape_scale: "has_shape a 2 2 \<Longrightarrow> has_shape (scale a k) 2 2"
  by (auto elim!: shape2E simp: scale_2x2)

lemma dot_assoc:
  "has_shape a 2 2 \<Longrightarrow> has_shape b 2 2 \<Longrightarrow> has_shape c 2 2 \<Longrightarrow>
   dot (dot a b) c = dot a (dot b c)"
  by (auto elim!: shape2E simp: dot_2x2 algebra_simps)

lemma ct_dot: "has_shape a 2 2 \<Longrightarrow> has_shape b 2 2 \<Longrightarrow> ct (dot a b) = dot (ct b) (ct a)"
  by (auto elim!: shape2E simp: dot_2x2 ct_2x2 algebra_simps)

lemma ct_ct: "has_shape a 2 2 \<Longrightarrow> ct (ct a) = a"
  by (auto elim!: shape2E simp: ct_2x2)

lemma dot_eye_right: "has_shape a 2 2 \<Longrightarrow> dot a (eye 2) = a"
  by (auto elim!: shape2E simp: dot_2x2 eye_2)

lemma dot_eye_left: "has_shape a 2 2 \<Longrightarrow> dot (eye 2) a = a"
  by (auto elim!: shape2E simp: dot_2x2 eye_2)

lemma unitary_shape: "unitary m \<Longrightarrow> has_shape m 2 2"
  by (simp add: unitary_def)

lemma unitary_ct_dot: "unitary m \<Longrightarrow> dot (ct m) m = eye 2"
  by (simp add: unitary_def)

lemma unitary_ct: "unitary m \<Longrightarrow> unitary (ct m)"
proof (erule unitaryE)
  fix a b c d
  assume m: "m = [[a, b], [c, d]]"
    and 1: "cnj a * a + cnj c * c = 1" and 2: "cnj a * b + cnj c * d = 0"
    and 3: "cnj b * a + cnj d * c = 0" and 4: "cnj b * b + cnj d * d = 1"
  define D where "D = a * d - b * c"
  have d: "d = D * cnj a" and c: "c = - D * cnj b"
    unfolding D_def by (rule unitary_det_entries [OF 1 2 3 4])+
  have DD: "cnj D * D = 1" and r1: "a * cnj a + b * cnj b = 1"
    unfolding D_def by (rule unitary_det_unit [OF 1 2 3 4])+
  have "cnj d = cnj (D * cnj a)" using d by simp
  then have cd: "cnj d = cnj D * a" by simp
  have "cnj c = cnj (- D * cnj b)" using c by simp
  then have cc: "cnj c = - cnj D * b" by simp
  have "c * cnj c + d * cnj d = (- D * cnj b) * (- cnj D * b) + (D * cnj a) * (cnj D * a)"
    using c cc d cd by metis
  also have "\<dots> = (cnj D * D) * (a * cnj a + b * cnj b)"
    by (simp add: algebra_simps)
  finally have r2: "c * cnj c + d * cnj d = 1" using DD r1 by simp
  have "a * cnj c + b * cnj d = a * (- cnj D * b) + b * (cnj D * a)"
    using cc cd by metis
  then have r3: "a * cnj c + b * cnj d = 0"
    by (simp add: algebra_simps)
  have "cnj (a * cnj c + b * cnj d) = 0" using r3 by simp
  then have r4: "c * cnj a + d * cnj b = 0" by (simp add: algebra_simps)
  from r1 r2 r3 r4 show "unitary (ct m)"
    by (simp add: m ct_2x2 unitary_2x2 algebra_simps)
qed

lemma unitary_dot_ct: "unitary m \<Longrightarrow> dot m (ct m) = eye 2"
  using unitary_ct_dot [OF unitary_ct, of m] by (simp add: ct_ct unitary_shape)

lemma unitary_dot: 
  assumes "unitary a" and "unitary b"
  shows "unitary (dot a b)"
proof -
  note sa = unitary_shape [OF assms(1)] and sb = unitary_shape [OF assms(2)]
  have "dot (ct (dot a b)) (dot a b) = dot (dot (ct b) (ct a)) (dot a b)"
    by (simp add: ct_dot sa sb)
  also have "\<dots> = dot (ct b) (dot (dot (ct a) a) b)"
    by (simp add: dot_assoc sa sb has_shape_ct has_shape_dot)
  also have "\<dots> = eye 2"
    by (simp add: unitary_ct_dot assms dot_eye_left sb)
  finally show ?thesis by (simp add: unitary_def has_shape_dot sa sb)
qed

lemma unitary_scale:
  assumes "unitary m" and "cmod k = 1"
  shows "unitary (scale m k)"
proof -
  from assms(2) have k: "cnj k * k = 1"
    by (metis complex_norm_square mult.commute of_real_1 one_power2)
  from assms(1) show ?thesis
  proof (rule unitaryE)
    fix a b c d
    assume m: "m = [[a, b], [c, d]]"
      and 1: "cnj a * a + cnj c * c = 1" and 2: "cnj a * b + cnj c * d = 0"
      and 3: "cnj b * a + cnj d * c = 0" and 4: "cnj b * b + cnj d * d = 1"
    have "cnj (a * k) * (a * k) + cnj (c * k) * (c * k) = (cnj k * k) * (cnj a * a + cnj c * c)"
      "cnj (a * k) * (b * k) + cnj (c * k) * (d * k) = (cnj k * k) * (cnj a * b + cnj c * d)"
      "cnj (b * k) * (a * k) + cnj (d * k) * (c * k) = (cnj k * k) * (cnj b * a + cnj d * c)"
      "cnj (b * k) * (b * k) + cnj (d * k) * (d * k) = (cnj k * k) * (cnj b * b + cnj d * d)"
      by (simp_all add: algebra_simps)
    with k 1 2 3 4 show ?thesis
      by (simp only: m scale_2x2 unitary_2x2) simp
  qed
qed

lemma unitary_diag:
  assumes "cmod p = 1" and "cmod q = 1"
  shows "unitary [[p, 0], [0, q]]"
proof -
  from assms have "cnj p * p = 1" "cnj q * q = 1"
    by (metis complex_norm_square mult.commute of_real_1 one_power2)+
  then show ?thesis by (simp add: unitary_2x2)
qed

lemma unitary_eye: "unitary (eye 2)"
  by (simp add: eye_2 unitary_2x2)

lemma unitary_isometry_err: "unitary m \<Longrightarrow> isometry_err m = 0"
  by (erule unitaryE) (simp add: isometry_err_2x2 norm_fro_2x2)

section \<open>The demultiplexer\<close>

lemma cnj_mult_self_cmod: "cnj z * z = 1 \<longleftrightarrow> cmod z = 1"
proof -
  have "cnj z * z = of_real ((cmod z)\<^sup>2)"
    by (metis complex_norm_square mult.commute)
  then have "cnj z * z = 1 \<longleftrightarrow> (cmod z)\<^sup>2 = 1"
    by (metis of_real_1 of_real_eq_iff)
  moreover have "cmod z \<noteq> - 1" using norm_ge_zero [of z] by linarith
  then have "(cmod z)\<^sup>2 = 1 \<longleftrightarrow> cmod z = 1"
    by (auto simp: power2_eq_1_iff)
  ultimately show ?thesis by simp
qed

lemma unit_cis_Arg: "cmod z = 1 \<Longrightarrow> z = cis (Arg z)"
  using rcis_cmod_Arg [of z] by (simp add: rcis_def)

lemma csqrt_cis:
  assumes "- pi < phi" and "phi \<le> pi"
  shows "csqrt (cis phi) = cis (phi / 2)"
proof (rule csqrt_unique)
  show "(cis (phi / 2))\<^sup>2 = cis phi"
    by (simp add: power2_eq_square cis_mult)
  show "0 < Re (cis (phi / 2)) \<or> Re (cis (phi / 2)) = 0 \<and> 0 \<le> Im (cis (phi / 2))"
  proof (cases "phi = pi")
    case True
    then show ?thesis by simp
  next
    case False
    with assms have "- (pi / 2) < phi / 2" "phi / 2 < pi / 2" by simp_all
    then have "0 < cos (phi / 2)" by (rule cos_gt_zero_pi)
    then show ?thesis by simp
  qed
qed

lemma exp_half_cis: "exp (\<i> / 2 * complex_of_real t) = cis (t / 2)"
proof -
  have "\<i> / 2 * complex_of_real t = \<i> * complex_of_real (t / 2)" by simp
  then show ?thesis by (simp only: cis_conv_exp)
qed

lemma demultiplex_r_unitary:
  assumes 1: "cnj p * p + cnj s * s = 1" and 2: "cnj p * q + cnj s * t = 0"
    and 3: "cnj q * p + cnj t * s = 0" and 4: "cnj q * q + cnj t * t = 1"
  shows "\<exists>r1 r2. demultiplex_r [[p, q], [s, t]] = Inr [[r1, 0], [0, r2]] \<and>
           cmod r1 = 1 \<and> cmod r2 = 1 \<and>
           r1 * r1 * p + r2 * r2 * t = 0 \<and> (r1 * r1) * (r2 * r2) * (p * t - q * s) = 1"
proof -
  define D where "D = p * t - q * s"
  define phi where "phi = Arg D"
  define x11 where "x11 = p / csqrt D"
  define th where "th = Arg x11"
  define r1 where "r1 = cis ((pi / 2 - phi / 2 - th) / 2)"
  define r2 where "r2 = cis ((pi / 2 - phi / 2 + th + pi) / 2)"
  have det: "det2 [[p, q], [s, t]] = D"
    by (simp add: det2_def item_def D_def)
  have "cnj D * D = 1" unfolding D_def by (rule unitary_det_unit(1) [OF 1 2 3 4])
  then have mD: "cmod D = 1" by (simp add: cnj_mult_self_cmod)
  then have D_ne: "D \<noteq> 0" by auto
  have Dcis: "D = cis phi" unfolding phi_def by (rule unit_cis_Arg [OF mD])
  have bnd: "- pi < phi" "phi \<le> pi" using Arg_bounded [of D] by (simp_all add: phi_def)
  have sq: "csqrt D = cis (phi / 2)"
    using csqrt_cis [OF bnd] by (simp only: Dcis [symmetric])
  have "x11 = p * inverse (cis (phi / 2))"
    by (simp only: x11_def sq divide_inverse)
  then have x11: "x11 = p * cis (- (phi / 2))"
    by (simp only: cis_inverse)
  have x11p: "of_real (cmod x11) * cis th = x11"
    using rcis_cmod_Arg [of x11] by (simp only: rcis_def th_def)
  have t: "t = D * cnj p" unfolding D_def by (rule unitary_det_entries(1) [OF 1 2 3 4])
  have "demultiplex_r [[p, q], [s, t]] =
      Inr [[exp (\<i> / 2 * complex_of_real (pi / 2 - phi / 2 - th)), 0],
           [0, exp (\<i> / 2 * complex_of_real (pi / 2 - phi / 2 + th + pi))]]"
    using D_ne by (simp add: demultiplex_r_def det Let_def item_def phi_def th_def x11_def)
  then have r: "demultiplex_r [[p, q], [s, t]] = Inr [[r1, 0], [0, r2]]"
    by (simp only: exp_half_cis r1_def r2_def)
  have e1: "(pi / 2 - phi / 2 - th) / 2 + (pi / 2 - phi / 2 - th) / 2
      = pi / 2 + (- (phi / 2) + - th)"
    by simp
  have e2: "(pi / 2 - phi / 2 + th + pi) / 2 + (pi / 2 - phi / 2 + th + pi) / 2
      = pi + (pi / 2 + (- (phi / 2) + th))"
    by simp
  have r1c: "r1 * r1 = cis (pi / 2 + (- (phi / 2) + - th))"
    unfolding r1_def cis_mult e1 ..
  have r2c: "r2 * r2 = cis (pi + (pi / 2 + (- (phi / 2) + th)))"
    unfolding r2_def cis_mult e2 ..
  have r1sq: "r1 * r1 = \<i> * cis (- (phi / 2)) * cis (- th)"
    using r1c by (simp only: cis_mult [symmetric] cis_pi_half mult.assoc)
  have r2sq: "r2 * r2 = - \<i> * cis (- (phi / 2)) * cis th"
  proof -
    have "r2 * r2 = cis pi * (cis (pi / 2) * (cis (- (phi / 2)) * cis th))"
      using r2c by (simp only: cis_mult)
    then show ?thesis by simp
  qed
  have a: "r1 * r1 * p = \<i> * of_real (cmod x11)"
  proof -
    have "r1 * r1 * p = \<i> * cis (- th) * x11"
      by (simp add: r1sq x11)
    also have "\<dots> = \<i> * cis (- th) * (of_real (cmod x11) * cis th)"
      by (simp only: x11p)
    also have "\<dots> = \<i> * of_real (cmod x11) * (cis (- th) * cis th)"
      by simp
    finally show ?thesis by (simp add: cis_mult)
  qed
  have b: "r2 * r2 * t = - \<i> * of_real (cmod x11)"
  proof -
    have cx: "cnj x11 = cnj p * cis (phi / 2)"
      by (simp add: x11 cis_cnj)
    have "cnj (of_real (cmod x11) * cis th) = of_real (cmod x11) * cis (- th)"
      by (simp add: cis_cnj)
    then have cx2: "cnj x11 = of_real (cmod x11) * cis (- th)"
      by (simp only: x11p)
    have "r2 * r2 * t = - \<i> * cis th * (cis (- (phi / 2)) * cis phi) * cnj p"
      by (simp add: r2sq t Dcis)
    also have "cis (- (phi / 2)) * cis phi = cis (phi / 2)"
      by (simp add: cis_mult)
    finally have "r2 * r2 * t = - \<i> * cis th * cnj x11"
      by (simp add: cx)
    also have "\<dots> = - \<i> * cis th * (of_real (cmod x11) * cis (- th))"
      by (simp only: cx2)
    also have "\<dots> = - \<i> * of_real (cmod x11) * (cis th * cis (- th))"
      by simp
    finally show ?thesis by (simp add: cis_mult)
  qed
  have c: "(r1 * r1) * (r2 * r2) * D = 1"
  proof -
    have "pi / 2 + (- (phi / 2) + - th) + (pi + (pi / 2 + (- (phi / 2) + th))) + phi = 2 * pi"
      by simp
    then have "cis (pi / 2 + (- (phi / 2) + - th)) * cis (pi + (pi / 2 + (- (phi / 2) + th)))
        * cis phi = 1"
      by (simp only: cis_mult cis_2pi)
    then show ?thesis by (simp only: r1c r2c Dcis)
  qed
  from r a b c show ?thesis
    by (intro exI [of _ r1] exI [of _ r2]) (simp add: r1_def r2_def D_def)
qed

lemma diag_m_2: "diag_m [x, y] = [[x, 0], [0, y]]"
  by (simp add: diag_m_def upt_0_2)

lemma square_minus_one: "(w::complex) * w = - 1 \<Longrightarrow> w = \<i> \<or> w = - \<i>"
proof -
  assume "w * w = - 1"
  then have "(w - \<i>) * (w + \<i>) = 0" by (simp add: algebra_simps)
  then show ?thesis by (auto simp: eq_neg_iff_add_eq_0)
qed

lemma cmod_sq_cnj: "complex_of_real ((cmod z)\<^sup>2) = cnj z * z"
  by (metis complex_norm_square mult.commute)

lemma eigenvectors_orthogonal:
  fixes A B C D e f g h :: complex
  assumes u1: "cnj A * A + cnj C * C = 1" and u2: "cnj A * B + cnj C * D = 0"
    and u3: "cnj B * A + cnj D * C = 0" and u4: "cnj B * B + cnj D * D = 1"
    and e1: "A * e + B * g = \<i> * e" and e2: "C * e + D * g = \<i> * g"
    and e3: "A * f + B * h = - \<i> * f" and e4: "C * f + D * h = - \<i> * h"
  shows "cnj e * f + cnj g * h = 0"
proof -
  have "cnj (A * e + B * g) * (A * f + B * h) + cnj (C * e + D * g) * (C * f + D * h)
      = cnj e * f * (cnj A * A + cnj C * C) + cnj e * h * (cnj A * B + cnj C * D)
        + cnj g * f * (cnj B * A + cnj D * C) + cnj g * h * (cnj B * B + cnj D * D)"
    by (simp add: algebra_simps)
  also have "\<dots> = cnj e * f + cnj g * h"
    by (simp only: u1 u2 u3 u4) simp
  finally have "cnj (\<i> * e) * (- \<i> * f) + cnj (\<i> * g) * (- \<i> * h) = cnj e * f + cnj g * h"
    by (simp only: e1 e2 e3 e4)
  then have "- (cnj e * f + cnj g * h) = cnj e * f + cnj g * h"
    by (simp add: algebra_simps)
  then have "2 * (cnj e * f + cnj g * h) = 0"
    by (simp only: neg_eq_iff_add_eq_0 mult_2)
  then show ?thesis by (metis mult_eq_0_iff zero_neq_numeral)
qed

text \<open>What the eigensolver's contract gives after the normalisation of the order.\<close>

lemma eig_normalised:
  assumes m: "unitary [[A, B], [C, D]]" and tr: "A + D = 0" and det: "A * D - B * C = 1"
    and ok: "eig_ok eig [[A, B], [C, D]]"
    and e: "eig [[A, B], [C, D]] = (w, vv)"
  defines "flipped \<equiv> cmod (w ! 0 + \<i>) < EPS"
  shows "(if flipped then rev w else w) = [\<i>, - \<i>]"
    and "unitary (if flipped then map rev vv else vv)"
    and "dot [[A, B], [C, D]] (if flipped then map rev vv else vv)
          = dot (if flipped then map rev vv else vv) (diag_m [\<i>, - \<i>])"
    and "flipped \<longleftrightarrow> w = [- \<i>, \<i>]"
proof -
  from ok e have lw: "length w = 2" and sv: "has_shape vv 2 2"
    and s: "w ! 0 + w ! 1 = item [[A, B], [C, D]] 0 0 + item [[A, B], [C, D]] 1 1"
    and p: "w ! 0 * w ! 1 = det2 [[A, B], [C, D]]"
    and ev: "dot [[A, B], [C, D]] vv = dot vv (diag_m w)"
    and n0: "(cmod (item vv 0 0))\<^sup>2 + (cmod (item vv 1 0))\<^sup>2 = 1"
    and n1: "(cmod (item vv 0 1))\<^sup>2 + (cmod (item vv 1 1))\<^sup>2 = 1"
    by (simp_all add: eig_ok_def)
  from lw obtain w0 w1 where w: "w = [w0, w1]"
    by (auto simp: length_Suc_conv numeral_2_eq_2)
  from sv obtain v00 v01 v10 v11 where vv: "vv = [[v00, v01], [v10, v11]]"
    by (rule shape2E)
  from s tr have s': "w0 + w1 = 0" by (simp add: w item_def)
  from p det have p': "w0 * w1 = 1" by (simp add: w item_def det2_def)
  from s' have w1: "w1 = - w0" by (simp add: eq_neg_iff_add_eq_0 add.commute)
  with p' have "- (w0 * w0) = 1" by simp
  then have "w0 * w0 = - 1" by (metis minus_minus)
  then have cases: "w0 = \<i> \<or> w0 = - \<i>" by (rule square_minus_one)
  from m have um: "cnj A * A + cnj C * C = 1" "cnj A * B + cnj C * D = 0"
    "cnj B * A + cnj D * C = 0" "cnj B * B + cnj D * D = 1"
    by (simp_all add: unitary_2x2)
  from ev have ev': "A * v00 + B * v10 = v00 * w0" "A * v01 + B * v11 = v01 * w1"
    "C * v00 + D * v10 = v10 * w0" "C * v01 + D * v11 = v11 * w1"
    by (simp_all add: vv w dot_2x2 diag_m_2)
  from n0 have "complex_of_real ((cmod v00)\<^sup>2 + (cmod v10)\<^sup>2) = 1"
    by (simp add: vv item_def)
  then have c0: "cnj v00 * v00 + cnj v10 * v10 = 1"
    by (simp only: of_real_add cmod_sq_cnj)
  from n1 have "complex_of_real ((cmod v01)\<^sup>2 + (cmod v11)\<^sup>2) = 1"
    by (simp add: vv item_def)
  then have c1: "cnj v01 * v01 + cnj v11 * v11 = 1"
    by (simp only: of_real_add cmod_sq_cnj)
  have EPS: "0 < EPS" "EPS < 2" by (simp_all add: EPS_def)
  from cases show "(if flipped then rev w else w) = [\<i>, - \<i>]"
    and "unitary (if flipped then map rev vv else vv)"
    and "dot [[A, B], [C, D]] (if flipped then map rev vv else vv)
          = dot (if flipped then map rev vv else vv) (diag_m [\<i>, - \<i>])"
    and "flipped \<longleftrightarrow> w = [- \<i>, \<i>]"
  proof -
    assume "w0 = \<i> \<or> w0 = - \<i>"
    then consider (pos) "w0 = \<i>" | (neg) "w0 = - \<i>" by blast
    then have "(if flipped then rev w else w) = [\<i>, - \<i>] \<and>
      unitary (if flipped then map rev vv else vv) \<and>
      dot [[A, B], [C, D]] (if flipped then map rev vv else vv)
          = dot (if flipped then map rev vv else vv) (diag_m [\<i>, - \<i>]) \<and>
      (flipped \<longleftrightarrow> w = [- \<i>, \<i>])"
    proof cases
      case pos
      then have nf: "\<not> flipped" using EPS by (simp add: flipped_def w)
      from ev' pos w1 have eqs: "A * v00 + B * v10 = \<i> * v00" "C * v00 + D * v10 = \<i> * v10"
        "A * v01 + B * v11 = - \<i> * v01" "C * v01 + D * v11 = - \<i> * v11"
        by (simp_all add: mult.commute)
      have o: "cnj v00 * v01 + cnj v10 * v11 = 0"
        by (rule eigenvectors_orthogonal [OF um eqs])
      then have "cnj (cnj v00 * v01 + cnj v10 * v11) = 0" by simp
      then have o': "cnj v01 * v00 + cnj v11 * v10 = 0" by (simp add: mult.commute)
      have "unitary vv" using c0 c1 o o' by (simp add: vv unitary_2x2)
      moreover have "dot [[A, B], [C, D]] vv = dot vv (diag_m [\<i>, - \<i>])"
        using eqs by (simp add: vv dot_2x2 diag_m_2 mult.commute)
      ultimately show ?thesis using nf pos w1 by (simp add: w)
    next
      case neg
      then have f: "flipped" using EPS by (simp add: flipped_def w)
      from ev' neg w1 have eqs: "A * v01 + B * v11 = \<i> * v01" "C * v01 + D * v11 = \<i> * v11"
        "A * v00 + B * v10 = - \<i> * v00" "C * v00 + D * v10 = - \<i> * v10"
        by (simp_all add: mult.commute)
      have o: "cnj v01 * v00 + cnj v11 * v10 = 0"
        by (rule eigenvectors_orthogonal [OF um eqs])
      then have "cnj (cnj v01 * v00 + cnj v11 * v10) = 0" by simp
      then have o': "cnj v00 * v01 + cnj v10 * v11 = 0" by (simp add: mult.commute)
      have "unitary (map rev vv)" using c0 c1 o o' by (simp add: vv unitary_2x2)
      moreover have "dot [[A, B], [C, D]] (map rev vv) = dot (map rev vv) (diag_m [\<i>, - \<i>])"
        using eqs by (simp add: vv dot_2x2 diag_m_2 mult.commute)
      ultimately show ?thesis using f neg w1 by (simp add: w)
    qed
    then show "(if flipped then rev w else w) = [\<i>, - \<i>]"
      and "unitary (if flipped then map rev vv else vv)"
      and "dot [[A, B], [C, D]] (if flipped then map rev vv else vv)
          = dot (if flipped then map rev vv else vv) (diag_m [\<i>, - \<i>])"
      and "flipped \<longleftrightarrow> w = [- \<i>, \<i>]"
      by blast+
  qed
qed

lemma unitary_cancel_left: "unitary r \<Longrightarrow> has_shape z 2 2 \<Longrightarrow> dot (ct r) (dot r z) = z"
  by (simp add: dot_assoc [symmetric] has_shape_ct unitary_shape unitary_ct_dot dot_eye_left)

lemma unitary_cancel_right: "unitary r \<Longrightarrow> has_shape z 2 2 \<Longrightarrow> dot r (dot (ct r) z) = z"
  by (simp add: dot_assoc [symmetric] has_shape_ct unitary_shape unitary_dot_ct dot_eye_left)

lemma sqrt_diag_unitary: "unitary (diag_m [csqrt \<i>, csqrt (- \<i>)])"
  unfolding diag_m_2 by (rule unitary_diag) (simp_all del: csqrt_ii csqrt_minus)

lemma sqrt_diag_square:
  "dot (diag_m [csqrt \<i>, csqrt (- \<i>)]) (diag_m [csqrt \<i>, csqrt (- \<i>)]) = diag_m [\<i>, - \<i>]"
proof -
  have "csqrt \<i> * csqrt \<i> = \<i>" "csqrt (- \<i>) * csqrt (- \<i>) = - \<i>"
    by (metis power2_csqrt power2_eq_square)+
  then show ?thesis by (simp only: diag_m_2 dot_2x2) simp
qed

lemma demultiplex_correct:
  assumes a: "unitary a" and b: "unitary b"
    and ok: "\<forall>r. demultiplex_r (dot a (ct b)) = Inr r
               \<longrightarrow> eig_ok eig (dot (dot r (dot a (ct b))) r)"
  shows "\<exists>v u r. demultiplex_single_uc eig a b = Inr (v, u, r) \<and>
      unitary v \<and> unitary u \<and> unitary r \<and>
      dot (dot r (dot a (ct b))) r = dot (dot u (diag_m [\<i>, - \<i>])) (ct u) \<and>
      v = dot (dot (dot (diag_m [csqrt \<i>, csqrt (- \<i>)]) (ct u)) (ct r)) b \<and>
      a = dot (ct r) (dot u (dot (diag_m [csqrt \<i>, csqrt (- \<i>)]) v)) \<and>
      b = dot r (dot u (dot (ct (diag_m [csqrt \<i>, csqrt (- \<i>)])) v)) \<and>
      (case eig (dot (dot r (dot a (ct b))) r) of (w, vv) \<Rightarrow>
         u = (if w = [- \<i>, \<i>] then map rev vv else vv))"
proof -
  define x where "x = dot a (ct b)"
  have ux: "unitary x" unfolding x_def using a b by (intro unitary_dot unitary_ct)
  then obtain p q s t where xe: "x = [[p, q], [s, t]]"
    and x1: "cnj p * p + cnj s * s = 1" and x2: "cnj p * q + cnj s * t = 0"
    and x3: "cnj q * p + cnj t * s = 0" and x4: "cnj q * q + cnj t * t = 1"
    by (rule unitaryE)
  from demultiplex_r_unitary [OF x1 x2 x3 x4] obtain r1 r2 where
    r: "demultiplex_r x = Inr [[r1, 0], [0, r2]]" and m1: "cmod r1 = 1" and m2: "cmod r2 = 1"
    and tr0: "r1 * r1 * p + r2 * r2 * t = 0"
    and det1: "(r1 * r1) * (r2 * r2) * (p * t - q * s) = 1"
    unfolding xe by blast
  define rr where "rr = [[r1, 0], [0, r2]]"
  define m where "m = dot (dot rr x) rr"
  have ur: "unitary rr" unfolding rr_def using m1 m2 by (rule unitary_diag)
  have um: "unitary m" unfolding m_def using ur ux by (intro unitary_dot)
  have me: "m = [[r1 * p * r1, r1 * q * r2], [r2 * s * r1, r2 * t * r2]]"
    by (simp add: m_def rr_def xe dot_2x2)
  have tr: "r1 * p * r1 + r2 * t * r2 = 0"
    using tr0 by (simp add: mult.commute mult.left_commute)
  have "(r1 * p * r1) * (r2 * t * r2) - (r1 * q * r2) * (r2 * s * r1)
      = (r1 * r1) * (r2 * r2) * (p * t - q * s)"
    by (simp add: algebra_simps)
  with det1 have det: "(r1 * p * r1) * (r2 * t * r2) - (r1 * q * r2) * (r2 * s * r1) = 1"
    by simp
  from ok r have eok: "eig_ok eig m" by (simp add: x_def [symmetric] rr_def m_def)
  obtain w vv where e: "eig m = (w, vv)" by (cases "eig m")
  define flipped where "flipped = (cmod (w ! 0 + \<i>) < EPS)"
  define u where "u = (if flipped then map rev vv else vv)"
  define d2 where "d2 = diag_m [csqrt \<i>, csqrt (- \<i>)]"
  define d where "d = diag_m [\<i>, - \<i>]"
  define v where "v = dot (dot (dot d2 (ct u)) (ct rr)) b"
  note en = eig_normalised [OF um [unfolded me] tr det eok [unfolded me] e [unfolded me],
      folded me flipped_def u_def d_def]
  have dw: "(if flipped then rev w else w) = [\<i>, - \<i>]" by (rule en(1))
  have uu: "unitary u" by (rule en(2))
  have mu: "dot m u = dot u d" by (rule en(3))
  have fl: "flipped \<longleftrightarrow> w = [- \<i>, \<i>]" by (rule en(4))
  have ud2: "unitary d2" unfolding d2_def by (rule sqrt_diag_unitary)
  have d2d2: "dot d2 d2 = d" unfolding d2_def d_def by (rule sqrt_diag_square)
  note sh = unitary_shape [OF a] unitary_shape [OF b] unitary_shape [OF ur] unitary_shape [OF uu]
    unitary_shape [OF ud2] unitary_shape [OF um] unitary_shape [OF ux]
  have sd: "has_shape d 2 2" by (simp add: d_def diag_m_2)
  have res: "demultiplex_single_uc eig a b = Inr (v, u, rr)"
    using r e dw
    by (simp add: demultiplex_single_uc_def x_def [symmetric] bind_def rr_def [symmetric]
        m_def [symmetric] Let_def flipped_def [symmetric] u_def [symmetric] d2_def v_def)
  have uv: "unitary v" unfolding v_def using ud2 uu ur b
    by (intro unitary_dot unitary_ct)
  have m_eq: "m = dot (dot u d) (ct u)"
  proof -
    have "m = dot m (dot u (ct u))" by (simp add: unitary_dot_ct uu dot_eye_right sh)
    also have "\<dots> = dot (dot m u) (ct u)" by (simp add: dot_assoc sh has_shape_ct)
    finally show ?thesis by (simp only: mu)
  qed
  have d2v: "dot d2 v = dot d (dot (ct u) (dot (ct rr) b))"
  proof -
    have "dot d2 v = dot (dot d2 d2) (dot (ct u) (dot (ct rr) b))"
      by (simp add: v_def dot_assoc sh has_shape_ct has_shape_dot)
    then show ?thesis by (simp only: d2d2)
  qed
  have ra: "dot rr a = dot (dot m (ct rr)) b"
  proof -
    have "dot (dot m (ct rr)) b = dot rr (dot x (dot (dot rr (ct rr)) b))"
      by (simp add: m_def dot_assoc sh has_shape_ct has_shape_dot)
    also have "\<dots> = dot rr (dot x b)"
      by (simp add: unitary_dot_ct ur dot_eye_left sh)
    also have "dot x b = dot a (dot (ct b) b)"
      by (simp add: x_def dot_assoc sh has_shape_ct)
    also have "\<dots> = a" by (simp add: unitary_ct_dot b dot_eye_right sh)
    finally show ?thesis by simp
  qed
  have a_eq: "a = dot (ct rr) (dot u (dot d2 v))"
  proof -
    have "dot u (dot d2 v) = dot (dot (dot u d) (ct u)) (dot (ct rr) b)"
      by (simp add: d2v dot_assoc sh sd has_shape_ct has_shape_dot)
    also have "\<dots> = dot (dot m (ct rr)) b"
      by (simp add: m_eq [symmetric] dot_assoc sh has_shape_ct has_shape_dot)
    also have "\<dots> = dot rr a" by (simp only: ra)
    finally have "dot (ct rr) (dot u (dot d2 v)) = dot (ct rr) (dot rr a)" by simp
    then show ?thesis by (simp add: unitary_cancel_left ur sh)
  qed
  have b_eq: "b = dot rr (dot u (dot (ct d2) v))"
  proof -
    have "dot (ct d2) v = dot (dot (ct d2) d2) (dot (ct u) (dot (ct rr) b))"
      by (simp add: v_def dot_assoc sh has_shape_ct has_shape_dot)
    also have "\<dots> = dot (ct u) (dot (ct rr) b)"
      by (simp add: unitary_ct_dot ud2 dot_eye_left sh has_shape_ct has_shape_dot)
    finally have "dot rr (dot u (dot (ct d2) v)) = dot rr (dot u (dot (ct u) (dot (ct rr) b)))"
      by simp
    also have "\<dots> = b"
      by (simp add: unitary_cancel_right uu ur sh has_shape_ct has_shape_dot)
    finally show ?thesis by simp
  qed
  have cs: "case eig (dot (dot rr (dot a (ct b))) rr) of (w, vv) \<Rightarrow>
         u = (if w = [- \<i>, \<i>] then map rev vv else vv)"
    using e fl by (simp add: x_def [symmetric] m_def [symmetric] u_def)
  show ?thesis
  proof (intro exI conjI)
    show "demultiplex_single_uc eig a b = Inr (v, u, rr)" by (rule res)
    show "unitary v" by (rule uv)
    show "unitary u" by (rule uu)
    show "unitary rr" by (rule ur)
    show "dot (dot rr (dot a (ct b))) rr = dot (dot u (diag_m [\<i>, - \<i>])) (ct u)"
      by (rule m_eq [unfolded m_def x_def d_def])
    show "v = dot (dot (dot (diag_m [csqrt \<i>, csqrt (- \<i>)]) (ct u)) (ct rr)) b"
      by (rule v_def [unfolded d2_def])
    show "a = dot (ct rr) (dot u (dot (diag_m [csqrt \<i>, csqrt (- \<i>)]) v))"
      by (rule a_eq [unfolded d2_def])
    show "b = dot rr (dot u (dot (ct (diag_m [csqrt \<i>, csqrt (- \<i>)])) v))"
      by (rule b_eq [unfolded d2_def])
    show "case eig (dot (dot rr (dot a (ct b))) rr) of (w, vv) \<Rightarrow>
         u = (if w = [- \<i>, \<i>] then map rev vv else vv)"
      by (rule cs)
  qed
qed

section \<open>The demultiplexer and the isometry test on concrete and on all inputs\<close>

lemma Arg_1: "Arg 1 = 0"
  by (rule cis_Arg_unique) simp_all

lemma demultiplex_r_eye:
  "demultiplex_r (eye 2) = Inr [[cis (pi / 4), 0], [0, cis (3 * pi / 4)]]"
proof -
  have "demultiplex_r (eye 2) =
      Inr [[exp (\<i> / 2 * complex_of_real (pi / 2)), 0],
           [0, exp (\<i> / 2 * complex_of_real (pi / 2 + pi))]]"
    by (simp add: demultiplex_r_def eye_2 det2_def item_def Arg_1 Let_def)
  moreover have "pi / 2 / 2 = pi / 4" "(pi / 2 + pi) / 2 = 3 * pi / 4" by simp_all
  ultimately show ?thesis by (simp only: exp_half_cis)
qed

lemma example_matrix:
  "dot (dot [[cis (pi / 4), 0], [0, cis (3 * pi / 4)]] (dot (eye 2) (ct (eye 2))))
       [[cis (pi / 4), 0], [0, cis (3 * pi / 4)]] = [[\<i>, 0], [0, - \<i>]]"
proof -
  have e: "pi / 4 + pi / 4 = pi / 2" "3 * pi / 4 + 3 * pi / 4 = pi + pi / 2" by simp_all
  have "cis (pi / 4) * cis (pi / 4) = cis (pi / 2)"
    "cis (3 * pi / 4) * cis (3 * pi / 4) = cis pi * cis (pi / 2)"
    by (simp_all only: cis_mult e)
  then have "cis (pi / 4) * cis (pi / 4) = \<i>" "cis (3 * pi / 4) * cis (3 * pi / 4) = - \<i>"
    by simp_all
  then show ?thesis by (simp add: eye_2 ct_2x2 dot_2x2)
qed

lemma example_eig_ok: "eig_ok example_eig [[\<i>, 0], [0, - \<i>]]"
  by (simp add: eig_ok_def example_eig_def item_def det2_def dot_2x2 diag_m_2)

lemma example_eig_flipped_ok: "eig_ok example_eig_flipped [[\<i>, 0], [0, - \<i>]]"
  by (simp add: eig_ok_def example_eig_flipped_def item_def det2_def dot_2x2 diag_m_2)

text \<open>
  C2.  For unitary \<open>a\<close> and \<open>b\<close>, and an eigensolver that honours its contract on the matrix
  it is given, \<open>_demultiplex_single_uc\<close> returns \<open>(v, u, r)\<close>, all three unitary, with
  \<open>r (a b\<^sup>\<dagger>) r = u diag(i, -i) u\<^sup>\<dagger>\<close> and \<open>v = sqrt(diag(i, -i)) u\<^sup>\<dagger> r\<^sup>\<dagger> b\<close>; from them
  \<open>a = r\<^sup>\<dagger> u sqrt(d) v\<close> and \<open>b = r u sqrt(d)\<^sup>\<dagger> v\<close> are recovered exactly; and \<open>u\<close> is the
  eigenvector matrix with its columns exchanged exactly when the solver returned the
  eigenvalues as \<open>(-i, i)\<close>.  Floats are read as real numbers.
\<close>

theorem demultiplex_single_uc_relation:
  assumes "unitary a" and "unitary b"
    and "\<forall>r. demultiplex_r (dot a (ct b)) = Inr r
               \<longrightarrow> eig_ok eig (dot (dot r (dot a (ct b))) r)"
  shows "\<exists>v u r. demultiplex_single_uc eig a b = Inr (v, u, r) \<and>
      unitary v \<and> unitary u \<and> unitary r \<and>
      dot (dot r (dot a (ct b))) r = dot (dot u (diag_m [\<i>, - \<i>])) (ct u) \<and>
      v = dot (dot (dot (diag_m [csqrt \<i>, csqrt (- \<i>)]) (ct u)) (ct r)) b \<and>
      a = dot (ct r) (dot u (dot (diag_m [csqrt \<i>, csqrt (- \<i>)]) v)) \<and>
      b = dot r (dot u (dot (ct (diag_m [csqrt \<i>, csqrt (- \<i>)])) v)) \<and>
      (case eig (dot (dot r (dot a (ct b))) r) of (w, vv) \<Rightarrow>
         u = (if w = [- \<i>, \<i>] then map rev vv else vv))"
  using assms by (rule demultiplex_correct)

theorem demultiplex_single_uc_relation_witness:
  "(\<exists>v u r. demultiplex_single_uc example_eig (eye 2) (eye 2) = Inr (v, u, r) \<and>
      unitary v \<and> unitary u \<and> unitary r \<and>
      dot (dot r (dot (eye 2) (ct (eye 2)))) r = dot (dot u (diag_m [\<i>, - \<i>])) (ct u) \<and>
      v = dot (dot (dot (diag_m [csqrt \<i>, csqrt (- \<i>)]) (ct u)) (ct r)) (eye 2) \<and>
      eye 2 = dot (ct r) (dot u (dot (diag_m [csqrt \<i>, csqrt (- \<i>)]) v)) \<and>
      eye 2 = dot r (dot u (dot (ct (diag_m [csqrt \<i>, csqrt (- \<i>)])) v)) \<and>
      (case example_eig (dot (dot r (dot (eye 2) (ct (eye 2)))) r) of (w, vv) \<Rightarrow>
         u = (if w = [- \<i>, \<i>] then map rev vv else vv))) \<and>
   (\<exists>v u r. demultiplex_single_uc example_eig_flipped (eye 2) (eye 2) = Inr (v, u, r) \<and>
      unitary v \<and> unitary u \<and> unitary r \<and>
      dot (dot r (dot (eye 2) (ct (eye 2)))) r = dot (dot u (diag_m [\<i>, - \<i>])) (ct u) \<and>
      v = dot (dot (dot (diag_m [csqrt \<i>, csqrt (- \<i>)]) (ct u)) (ct r)) (eye 2) \<and>
      eye 2 = dot (ct r) (dot u (dot (diag_m [csqrt \<i>, csqrt (- \<i>)]) v)) \<and>
      eye 2 = dot r (dot u (dot (ct (diag_m [csqrt \<i>, csqrt (- \<i>)])) v)) \<and>
      (case example_eig_flipped (dot (dot r (dot (eye 2) (ct (eye 2)))) r) of (w, vv) \<Rightarrow>
         u = (if w = [- \<i>, \<i>] then map rev vv else vv))) \<and>
   fst (example_eig_flipped [[\<i>, 0], [0, - \<i>]]) = [- \<i>, \<i>]"
proof -
  have x: "dot (eye 2) (ct (eye 2)) = eye 2" by (simp add: eye_2 ct_2x2 dot_2x2)
  have h1: "\<forall>r. demultiplex_r (dot (eye 2) (ct (eye 2))) = Inr r
               \<longrightarrow> eig_ok example_eig (dot (dot r (dot (eye 2) (ct (eye 2)))) r)"
    using example_matrix example_eig_ok by (simp add: x demultiplex_r_eye)
  have h2: "\<forall>r. demultiplex_r (dot (eye 2) (ct (eye 2))) = Inr r
               \<longrightarrow> eig_ok example_eig_flipped (dot (dot r (dot (eye 2) (ct (eye 2)))) r)"
    using example_matrix example_eig_flipped_ok by (simp add: x demultiplex_r_eye)
  have "fst (example_eig_flipped [[\<i>, 0], [0, - \<i>]]) = [- \<i>, \<i>]"
    by (simp add: example_eig_flipped_def item_def)
  with demultiplex_single_uc_relation [OF unitary_eye unitary_eye h1]
    demultiplex_single_uc_relation [OF unitary_eye unitary_eye h2]
  show ?thesis by blast
qed

lemma ncols_eye: "ncols (eye n) = n"
  by (cases n) (simp_all add: ncols_def eye_def upt_conv_Cons del: upt_Suc)

lemma col_eye: "j < n \<Longrightarrow> col (eye n) j = map (\<lambda>i. if i = j then 1 else 0) [0..<n]"
  by (simp add: col_def eye_def)

lemma cnj_eye: "map (map cnj) (eye n) = eye n"
proof -
  have "cnj (if i = j then 1 else 0) = (if i = j then 1 else 0)" for i j :: nat
    by simp
  then show ?thesis by (simp add: eye_def comp_def)
qed

lemma transpose_eye: "transpose_m (eye n) = eye n"
proof -
  have "transpose_m (eye n) = map (\<lambda>j. map (\<lambda>i. if i = j then 1 else 0) [0..<n]) [0..<n]"
    by (simp add: transpose_m_def ncols_eye col_eye)
  also have "\<dots> = eye n"
    unfolding eye_def by (intro map_cong refl) auto
  finally show ?thesis .
qed

lemma ct_eye: "ct (eye n) = eye n"
  by (simp only: ct_def cnj_eye transpose_eye)

lemma map2_same: "map2 f (map g xs) (map h xs) = map (\<lambda>x. f (g x) (h x)) xs"
  by (induction xs) simp_all

lemma sum_list_delta:
  assumes "j < n"
  shows "sum_list (map2 (*) (map (\<lambda>k. if i = k then 1 else 0) [0..<n])
                            (map (\<lambda>k. if k = j then 1 else (0::complex)) [0..<n]))
     = (if i = j then 1 else 0)"
proof -
  have "(\<lambda>k. (if i = k then 1 else 0) * (if k = j then 1 else (0::complex)))
      = (\<lambda>k. if k = j then (if i = j then 1 else 0) else 0)"
    by auto
  then have "sum_list (map2 (*) (map (\<lambda>k. if i = k then 1 else 0) [0..<n])
                            (map (\<lambda>k. if k = j then 1 else (0::complex)) [0..<n]))
      = (\<Sum>k\<in>set [0..<n]. if k = j then (if i = j then 1 else 0) else 0)"
    by (simp only: map2_same interv_sum_list_conv_sum_set_nat)
  also have "\<dots> = (if i = j then 1 else 0)"
    using assms by (simp add: sum.delta)
  finally show ?thesis .
qed

lemma eye_row: "i < n \<Longrightarrow> eye n ! i = map (\<lambda>k. if i = k then 1 else 0) [0..<n]"
  by (simp add: eye_def)

lemma dot_eye_eye: "dot (eye n) (eye n) = eye n"
proof (rule nth_equalityI)
  show "length (dot (eye n) (eye n)) = length (eye n)" by (simp add: dot_def)
next
  fix i assume "i < length (dot (eye n) (eye n))"
  then have i: "i < n" by (simp add: dot_def eye_def)
  then have row: "dot (eye n) (eye n) ! i =
      map (\<lambda>j. sum_list (map2 (*) (eye n ! i) (col (eye n) j))) [0..<n]"
    by (simp add: dot_def ncols_eye eye_def [of n, THEN arg_cong [of _ _ length]])
  show "dot (eye n) (eye n) ! i = eye n ! i"
  proof (rule nth_equalityI)
    show "length (dot (eye n) (eye n) ! i) = length (eye n ! i)"
      using i by (simp add: row eye_row)
  next
    fix j assume "j < length (dot (eye n) (eye n) ! i)"
    then have j: "j < n" by (simp add: row)
    with i show "dot (eye n) (eye n) ! i ! j = eye n ! i ! j"
      by (simp add: row eye_row col_eye sum_list_delta)
  qed
qed

lemma sub_self_zero: "concat (sub m m) = map (\<lambda>x. 0) (concat m)"
proof (induction m)
  case Nil
  then show ?case by (simp add: sub_def)
next
  case (Cons r m)
  have "map2 (-) r r = map (\<lambda>x. 0) r" by (induction r) simp_all
  with Cons show ?case by (simp add: sub_def)
qed

lemma isometry_err_eye: "isometry_err (eye n) = 0"
proof -
  have "isometry_err (eye n) = norm_fro (sub (eye n) (eye n))"
    by (simp only: isometry_err_def ct_eye dot_eye_eye ncols_eye)
  also have "\<dots> = 0"
    by (simp add: norm_fro_def sub_self_zero comp_def)
  finally show ?thesis .
qed

lemma unitary_accepted: "unitary m \<Longrightarrow> is_isometry m EPS = Inr True"
  using EPS_pos by (simp add: is_isometry_le unitary_isometry_err)

text \<open>
  C6, as the claim states it, fails on the boundary: the matrix \<open>diag(1, 0)\<close> has isometry
  error exactly 1 and \<open>_is_isometry\<close> accepts it with \<open>eps = 1\<close>.
\<close>

theorem is_isometry_strict_counterexample:
  "is_isometry [[1, 0], [0, 0]] 1 = Inr True \<and> \<not> isometry_err [[1, 0], [0, 0]] < 1"
proof -
  have "isometry_err [[1, 0], [0, 0]] = 1"
    by (simp add: isometry_err_2x2 norm_fro_2x2)
  then show ?thesis by (simp add: is_isometry_le)
qed

text \<open>
  C6, amended.  For a tolerance \<open>eps \<ge> 0\<close>, \<open>_is_isometry(m, eps)\<close> is true exactly when the
  Frobenius norm of \<open>m\<^sup>\<dagger> m - I\<close> is at most \<open>eps\<close>; with \<open>_EPS\<close> it accepts every identity
  matrix and the three matrices the demultiplexer returns for unitary inputs.
\<close>

theorem is_isometry_accepts:
  "(0 \<le> eps \<longrightarrow> is_isometry m eps = Inr (isometry_err m \<le> eps)) \<and>
   is_isometry (eye n) EPS = Inr True \<and>
   (unitary a \<and> unitary b \<and>
    (\<forall>r. demultiplex_r (dot a (ct b)) = Inr r \<longrightarrow> eig_ok eig (dot (dot r (dot a (ct b))) r))
    \<longrightarrow> (\<exists>v u r. demultiplex_single_uc eig a b = Inr (v, u, r) \<and>
           is_isometry v EPS = Inr True \<and> is_isometry u EPS = Inr True \<and>
           is_isometry r EPS = Inr True))"
proof (intro conjI impI)
  assume "0 \<le> eps"
  then show "is_isometry m eps = Inr (isometry_err m \<le> eps)" by (rule is_isometry_le)
next
  show "is_isometry (eye n) EPS = Inr True"
    using EPS_pos by (simp add: is_isometry_le isometry_err_eye)
next
  assume h: "unitary a \<and> unitary b \<and>
    (\<forall>r. demultiplex_r (dot a (ct b)) = Inr r \<longrightarrow> eig_ok eig (dot (dot r (dot a (ct b))) r))"
  then have "\<exists>v u r. demultiplex_single_uc eig a b = Inr (v, u, r) \<and>
      unitary v \<and> unitary u \<and> unitary r"
    using demultiplex_correct [of a b eig] by blast
  then show "\<exists>v u r. demultiplex_single_uc eig a b = Inr (v, u, r) \<and>
           is_isometry v EPS = Inr True \<and> is_isometry u EPS = Inr True \<and>
           is_isometry r EPS = Inr True"
    by (blast intro: unitary_accepted)
qed

theorem is_isometry_accepts_witness:
  "is_isometry [[1, 0], [0, 0]] 1 = Inr True \<and>
   is_isometry [[2, 0], [0, 1]] EPS = Inr False \<and>
   is_isometry (eye 3) EPS = Inr True \<and>
   (\<exists>v u r. demultiplex_single_uc example_eig (eye 2) (eye 2) = Inr (v, u, r) \<and>
           is_isometry v EPS = Inr True \<and> is_isometry u EPS = Inr True \<and>
           is_isometry r EPS = Inr True)"
proof -
  note t = is_isometry_accepts [of 1 "[[1, 0], [0, 0]]" 3 "eye 2" "eye 2" example_eig]
  note t2 = is_isometry_accepts [of EPS "[[2, 0], [0, 1]]" 3 "eye 2" "eye 2" example_eig]
  have x: "dot (eye 2) (ct (eye 2)) = eye 2" by (simp add: eye_2 ct_2x2 dot_2x2)
  have h: "\<forall>r. demultiplex_r (dot (eye 2) (ct (eye 2))) = Inr r
               \<longrightarrow> eig_ok example_eig (dot (dot r (dot (eye 2) (ct (eye 2)))) r)"
    using example_matrix example_eig_ok by (simp add: x demultiplex_r_eye)
  have e1: "isometry_err [[1, 0], [0, 0]] = 1"
    by (simp add: isometry_err_2x2 norm_fro_2x2)
  from t have 1: "is_isometry [[1, 0], [0, 0]] 1 = Inr True" by (simp add: e1)
  from t2 EPS_pos have 2: "is_isometry [[2, 0], [0, 1]] EPS = Inr False"
    by (simp add: isometry_err_example EPS_def)
  from t have 3: "is_isometry (eye 3) EPS = Inr True" by blast
  from t h unitary_eye have 4: "\<exists>v u r. demultiplex_single_uc example_eig (eye 2) (eye 2) = Inr (v, u, r) \<and>
           is_isometry v EPS = Inr True \<and> is_isometry u EPS = Inr True \<and>
           is_isometry r EPS = Inr True"
    by blast
  from 1 2 3 4 show ?thesis by blast
qed

subsection \<open>The gate without controls\<close>

lemma u3_entry_real: "1 \<le> cmod (item (sub (u3_matrix theta phi lam) [[\<i>, 0], [0, \<i>]]) 0 0)"
proof -
  have "item (sub (u3_matrix theta phi lam) [[\<i>, 0], [0, \<i>]]) 0 0
      = complex_of_real (cos (theta / 2)) - \<i>"
    by (simp add: u3_matrix_def sub_2x2 item_def)
  moreover have "\<bar>Im (complex_of_real (cos (theta / 2)) - \<i>)\<bar> = 1" by simp
  ultimately show ?thesis
    using abs_Im_le_cmod [of "complex_of_real (cos (theta / 2)) - \<i>"] by simp
qed

text \<open>
  C1 at \<open>k = 0\<close>.  The list \<open>[i I]\<close> is accepted by the constructor; \<open>_dec_ucg\<close> then
  returns a single \<open>u3\<close> instruction and the all-ones diagonal, whatever angles
  \<open>euler_angles_1q\<close> gives and whatever the flag.  The top-left entry of a \<open>u3\<close> matrix is
  real, so it differs from that of the target, \<open>i\<close>, by at least 1: neither the circuit
  nor the diagonal times the circuit is the target operator.
\<close>

theorem dec_ucg_no_controls_drops_phase:
  "UCG [[[\<i>, 0], [0, \<i>]]] utd =
     Inr \<lparr>gate_name = ''UCG'', num_qubits = 1, params = [[[\<i>, 0], [0, \<i>]]], up_to_diagonal = utd\<rparr> \<and>
   (\<exists>theta phi lam.
      dec_ucg eig euler
        \<lparr>gate_name = ''UCG'', num_qubits = 1, params = [[[\<i>, 0], [0, \<i>]]], up_to_diagonal = utd\<rparr>
        = Inr ([U3 theta phi lam [0]], [1, 1]) \<and>
      1 \<le> cmod (item (sub (u3_matrix theta phi lam) [[\<i>, 0], [0, \<i>]]) 0 0))"
proof
  have u: "unitary [[\<i>, 0], [0, \<i>]]" by (simp add: unitary_2x2)
  then have "\<forall>g \<in> set [[[\<i>, 0], [0, \<i>]]]. has_shape g 2 2 \<and> isometry_err g \<le> EPS"
    using EPS_pos by (simp add: unitary_isometry_err)
  from UCG_valid [OF this, of 0 utd]
  show "UCG [[[\<i>, 0], [0, \<i>]]] utd =
     Inr \<lparr>gate_name = ''UCG'', num_qubits = 1, params = [[[\<i>, 0], [0, \<i>]]], up_to_diagonal = utd\<rparr>"
    by simp
  obtain theta phi lam where e: "euler [[\<i>, 0], [0, \<i>]] = (theta, phi, lam)"
    by (cases "euler [[\<i>, 0], [0, \<i>]]")
  then have "dec_ucg eig euler
        \<lparr>gate_name = ''UCG'', num_qubits = 1, params = [[[\<i>, 0], [0, \<i>]]], up_to_diagonal = utd\<rparr>
        = Inr ([U3 theta phi lam [0]], [1, 1])"
    by (simp add: dec_ucg_def bind_def get_def numeral_2_eq_2)
  with u3_entry_real [of theta phi lam]
  show "\<exists>theta phi lam.
      dec_ucg eig euler
        \<lparr>gate_name = ''UCG'', num_qubits = 1, params = [[[\<i>, 0], [0, \<i>]]], up_to_diagonal = utd\<rparr>
        = Inr ([U3 theta phi lam [0]], [1, 1]) \<and>
      1 \<le> cmod (item (sub (u3_matrix theta phi lam) [[\<i>, 0], [0, \<i>]]) 0 0)"
    by blast
qed
section \<open>ucg.py: the assembled circuit\<close>

subsection \<open>Loops that cannot fail\<close>

lemma bind_Inr [simp]: "bind (Inr x) f = f x"
  by (simp add: bind_def)

lemma bind_Inl [simp]: "bind (Inl e) f = Inl e"
  by (simp add: bind_def)

lemma for_each_append: "for_each (xs @ ys) body s = bind (for_each xs body s) (for_each ys body)"
  by (induction xs arbitrary: s) (auto simp: bind_def split: sum.splits)

lemma for_each_snoc: "for_each (xs @ [i]) body s = bind (for_each xs body s) (body i)"
  by (simp add: for_each_append bind_def split: sum.splits)

lemma for_each_total:
  assumes "\<And>i s. i \<in> set xs \<Longrightarrow> P s \<Longrightarrow> \<exists>s'. body i s = Inr s' \<and> P s'"
    and "P s"
  shows "\<exists>s'. for_each xs body s = Inr s' \<and> P s'"
  using assms
proof (induction xs arbitrary: s)
  case Nil
  then show ?case by simp
next
  case (Cons i xs)
  from Cons.prems(1) [of i s] Cons.prems(2) obtain s1 where s1: "body i s = Inr s1" "P s1"
    by auto
  from Cons.IH [of s1] Cons.prems(1) s1(2) obtain s' where "for_each xs body s1 = Inr s'" "P s'"
    by auto
  with s1 show ?case by simp
qed

lemma tl_upt_Suc: "tl [0..<Suc k] = [1..<Suc k]"
  by (simp add: upt_conv_Cons del: upt_Suc)

lemma get_controls:
  assumes "q_controls = tl [0..<Suc k]" and "j < k"
  shows "get q_controls j = Inr (Suc j)"
  using assms by (simp add: get_def tl_upt_Suc del: upt_Suc)

lemma place_gate_leaf:
  assumes "length gates = 2 ^ k" and "i < 2 ^ k" and qc: "q_controls = tl [0..<Suc k]"
  shows "place_gate gates q_controls 0 i circuit = Inr (circuit @ spec_leaf gates i)"
proof (cases "i = 2 ^ k - 1")
  case True
  with assms(1,2) show ?thesis by (simp add: place_gate_def get_def spec_leaf_def Let_def)
next
  case False
  with assms(2) have "0 < Suc i" "Suc i < 2 ^ k" by simp_all
  then have "num_trailing_zeros (Suc i) < k" by (rule num_trailing_zeros_less)
  then have "get q_controls (num_trailing_zeros (Suc i)) = Inr (Suc (num_trailing_zeros (Suc i)))"
    by (rule get_controls [OF qc])
  with False assms(1,2) show ?thesis by (simp add: place_gate_def get_def spec_leaf_def Let_def)
qed

lemma place_gates:
  assumes "length gates = 2 ^ k" and "n \<le> 2 ^ k" and qc: "q_controls = tl [0..<Suc k]"
  shows "for_each [0..<n] (place_gate gates q_controls 0) circuit =
           Inr (circuit @ concat (map (spec_leaf gates) [0..<n]))"
  using assms(2)
proof (induction n)
  case 0
  then show ?case by simp
next
  case (Suc n)
  then have "n < 2 ^ k" by simp
  with Suc assms(1) show ?case
    by (simp add: for_each_snoc place_gate_leaf [OF _ _ qc])
qed


subsection \<open>\<open>_dec_ucg_help\<close> stays within its lists and keeps the gates unitary\<close>

lemma update_at_total:
  "k < length xs \<Longrightarrow> update_at xs k f = Inr (xs[k := f (xs ! k)])"
  by (simp add: update_at_def)

lemma len_ucg_half:
  assumes "dec_step < k"
  shows "(2::nat) ^ (k - dec_step) = 2 * 2 ^ (k - Suc dec_step)"
    and "(2::nat) ^ (k - dec_step) div 2 = 2 ^ (k - Suc dec_step)"
proof -
  from assms have "k - dec_step = Suc (k - Suc dec_step)" by simp
  then show "(2::nat) ^ (k - dec_step) = 2 * 2 ^ (k - Suc dec_step)" by simp
  then show "(2::nat) ^ (k - dec_step) div 2 = 2 ^ (k - Suc dec_step)" by simp
qed

lemma ucg_block_bound:
  assumes "dec_step < k" and "ucg_index < 2 ^ dec_step"
  shows "2 * (ucg_index * 2 ^ (k - Suc dec_step)) + 2 * 2 ^ (k - Suc dec_step) \<le> (2::nat) ^ k"
proof -
  from assms(2) have "Suc ucg_index \<le> 2 ^ dec_step" by simp
  then have "Suc ucg_index * 2 ^ (k - dec_step) \<le> 2 ^ dec_step * 2 ^ (k - dec_step)"
    by (rule mult_le_mono1)
  also have "\<dots> = 2 ^ k" using assms(1) by (simp add: power_add [symmetric])
  finally show ?thesis by (simp add: len_ucg_half(1) [OF assms(1)] algebra_simps)
qed

lemma merge_diag_total:
  assumes ld: "length diag = 2 ^ Suc k" and ds: "dec_step < k"
    and i: "i < 2 ^ (k - Suc dec_step)" and u: "ucg_index_2 < 2 ^ dec_step"
  shows "\<exists>diag'. merge_diag r (2 ^ (k - dec_step)) i ucg_index_2 diag = Inr diag' \<and>
           length diag' = 2 ^ Suc k"
proof -
  define h :: nat where "h = 2 ^ (k - Suc dec_step)"
  define p where "p = ucg_index_2 * h"
  have len: "(2::nat) ^ (k - dec_step) = 2 * h" unfolding h_def by (rule len_ucg_half(1) [OF ds])
  have b: "2 * p + 2 * h \<le> 2 ^ k" unfolding p_def h_def by (rule ucg_block_bound [OF ds u])
  have s2: "ucg_index_2 * (2 * h) = 2 * p" by (simp add: p_def)
  from i have ih: "i < h" by (simp add: h_def)
  have k1: "2 * (i + 2 * p) < length diag" "2 * (i + 2 * p) + 1 < length diag"
    "2 * h + 2 * (i + 2 * p) < length diag" "2 * h + 2 * (i + 2 * p) + 1 < length diag"
    using b ih ld by simp_all
  show ?thesis
    using k1 ld
    by (simp add: merge_diag_def len s2 Let_def update_at_total)
qed


lemma rz_entries_unit:
  "cmod (item (rz alpha) 0 0) = 1" "cmod (item (rz alpha) 1 1) = 1"
  by (simp_all add: rz_def item_def norm_exp_eq_Re)

lemma list_all_update: "list_all P xs \<Longrightarrow> P x \<Longrightarrow> list_all P (xs[i := x])"
  by (auto simp: list_all_iff dest!: set_update_subset_insert [THEN subsetD])

lemma list_all_nth: "list_all P xs \<Longrightarrow> i < length xs \<Longrightarrow> P (xs ! i)"
  by (simp add: list_all_length)

lemma demultiplex_step_total:
  assumes inv: "dec_invariant k (gates, diag)" and ec: "eig_contract eig"
    and ds: "dec_step < k" and ui: "ucg_index < 2 ^ dec_step"
    and i: "i < 2 ^ (k - dec_step) div 2"
  shows "\<exists>s'. demultiplex_step eig k dec_step ucg_index i (gates, diag) = Inr s' \<and>
           dec_invariant k s'"
proof -
  define h :: nat where "h = 2 ^ (k - Suc dec_step)"
  define p where "p = ucg_index * h"
  have len: "(2::nat) ^ (k - dec_step) = 2 * h" unfolding h_def by (rule len_ucg_half(1) [OF ds])
  have bd: "2 * p + 2 * h \<le> 2 ^ k" unfolding p_def h_def by (rule ucg_block_bound [OF ds ui])
  have sh: "ucg_index * (2 * h) = 2 * p" by (simp add: p_def)
  from i have ih: "i < h" by (simp add: h_def len_ucg_half(2) [OF ds])
  from inv have lg: "length gates = 2 ^ k" and ug: "list_all unitary gates"
    and ld: "length diag = 2 ^ Suc k"
    by (simp_all add: dec_invariant_def)
  have i1: "2 * p + i < length gates" and i2: "2 * p + h + i < length gates"
    using bd ih lg by simp_all
  define a where "a = gates ! (2 * p + i)"
  define b where "b = gates ! (2 * p + h + i)"
  have ua: "unitary a" and ub: "unitary b"
    unfolding a_def b_def using ug i1 i2 by (auto intro: list_all_nth)
  from ec ua ub have "\<forall>r. demultiplex_r (dot a (ct b)) = Inr r
               \<longrightarrow> eig_ok eig (dot (dot r (dot a (ct b))) r)"
    by (simp add: eig_contract_def)
  from demultiplex_correct [OF ua ub this] obtain v u r where
    dm: "demultiplex_single_uc eig a b = Inr (v, u, r)"
    and uv: "unitary v" and uu: "unitary u" and ur: "unitary r"
    by blast
  define g1 where "g1 = gates[2 * p + i := v]"
  define g2 where "g2 = g1[2 * p + h + i := u]"
  have l1: "length g1 = 2 ^ k" by (simp add: g1_def lg)
  have l2: "length g2 = 2 ^ k" by (simp add: g2_def l1)
  have u2: "list_all unitary g2"
    unfolding g2_def g1_def using ug uv uu by (intro list_all_update)
  have start: "demultiplex_step eig k dec_step ucg_index i (gates, diag) =
      (if ucg_index < 2 ^ dec_step - 1 then
         bind (update_at g2 (2 * p + 2 * h + i)
                 (\<lambda>g. scale (dot g (ct r)) (item (rz (pi / 2)) 0 0))) (\<lambda>gates.
         bind (update_at gates (2 * p + 2 * h + i + h)
                 (\<lambda>g. scale (dot g r) (item (rz (pi / 2)) 1 1))) (\<lambda>gates.
           Inr (gates, diag)))
       else bind (for_each [0..<2 ^ dec_step] (merge_diag r (2 * h) i) diag) (\<lambda>diag.
              Inr (g2, diag)))"
    using i1 i2 dm
    by (simp add: demultiplex_step_def len sh Let_def get_def a_def [symmetric] b_def [symmetric]
        update_at_total g1_def [symmetric] g2_def [symmetric] l1 l2 lg)
  show ?thesis
  proof (cases "ucg_index < 2 ^ dec_step - 1")
    case True
    then have "Suc ucg_index < 2 ^ dec_step" by simp
    from ucg_block_bound [OF ds this] have "2 * p + 4 * h \<le> 2 ^ k"
      by (simp add: p_def h_def algebra_simps)
    with ih l2 have j1: "2 * p + 2 * h + i < length g2" and j2: "2 * p + 2 * h + i + h < length g2"
      by simp_all
    define g3 where
      "g3 = g2[2 * p + 2 * h + i := scale (dot (g2 ! (2 * p + 2 * h + i)) (ct r)) (item (rz (pi / 2)) 0 0)]"
    define g4 where
      "g4 = g3[2 * p + 2 * h + i + h := scale (dot (g3 ! (2 * p + 2 * h + i + h)) r) (item (rz (pi / 2)) 1 1)]"
    have "unitary (g2 ! (2 * p + 2 * h + i))" using u2 j1 by (rule list_all_nth)
    then have "unitary (scale (dot (g2 ! (2 * p + 2 * h + i)) (ct r)) (item (rz (pi / 2)) 0 0))"
      using ur by (intro unitary_scale unitary_dot unitary_ct rz_entries_unit)
    with u2 have u3: "list_all unitary g3" unfolding g3_def by (rule list_all_update)
    have l3: "length g3 = 2 ^ k" by (simp add: g3_def l2)
    from j2 l2 have "2 * p + 2 * h + i + h < length g3" by (simp add: l3)
    with u3 have "unitary (g3 ! (2 * p + 2 * h + i + h))" by (rule list_all_nth)
    then have "unitary (scale (dot (g3 ! (2 * p + 2 * h + i + h)) r) (item (rz (pi / 2)) 1 1))"
      using ur by (intro unitary_scale unitary_dot rz_entries_unit)
    with u3 have u4: "list_all unitary g4" unfolding g4_def by (rule list_all_update)
    have l4: "length g4 = 2 ^ k" by (simp add: g4_def l3)
    have "demultiplex_step eig k dec_step ucg_index i (gates, diag) = Inr (g4, diag)"
      using True j1 j2 l2
      by (simp add: start update_at_total g4_def g3_def)
    with u4 l4 ld show ?thesis by (simp add: dec_invariant_def)
  next
    case False
    have "\<exists>d'. for_each [0..<2 ^ dec_step] (merge_diag r (2 * h) i) diag = Inr d' \<and>
            length d' = 2 ^ Suc k"
    proof (rule for_each_total [where P = "\<lambda>d :: complex list. length d = 2 ^ Suc k"])
      fix j and d :: "complex list"
      assume "j \<in> set [0..<2 ^ dec_step]" and "length d = 2 ^ Suc k"
      then show "\<exists>s'. merge_diag r (2 * h) i j d = Inr s' \<and> length s' = 2 ^ Suc k"
        using merge_diag_total [of d k dec_step i j r] ds ih by (simp add: len h_def)
    qed (rule ld)
    then obtain d' where "for_each [0..<2 ^ dec_step] (merge_diag r (2 * h) i) diag = Inr d'"
      and "length d' = 2 ^ Suc k" by blast
    with False l2 u2 show ?thesis by (simp add: start dec_invariant_def)
  qed
qed


subsection \<open>An eigensolver that honours the contract on every demultiplexed pair\<close>

lemma special_entries:
  assumes u: "unitary [[A, B], [C, D]]" and tr: "A + D = 0" and det: "A * D - B * C = 1"
  shows "D = - A" and "C = - cnj B" and "A * A - B * cnj B = - 1"
proof -
  from u have 1: "cnj A * A + cnj C * C = 1" and 2: "cnj A * B + cnj C * D = 0"
    and 3: "cnj B * A + cnj D * C = 0" and 4: "cnj B * B + cnj D * D = 1"
    by (simp_all add: unitary_2x2)
  from tr show d: "D = - A" by (simp add: eq_neg_iff_add_eq_0 add.commute)
  note e = unitary_det_entries [OF 1 2 3 4, unfolded det]
  have dc: "D = cnj A" using e(1) by simp
  have c: "C = - cnj B" using e(2) by simp
  from c show "C = - cnj B" .
  from d dc have ca: "cnj A = - A" by simp
  from unitary_det_unit(2) [OF 1 2 3 4] have "A * cnj A + B * cnj B = 1" .
  then have "A * (- A) + B * cnj B = 1" by (simp only: ca)
  then have "- (A * A - B * cnj B) = 1" by (simp add: algebra_simps)
  then show "A * A - B * cnj B = - 1" by (metis add.inverse_inverse)
qed

lemma normalise_columns:
  fixes x y :: complex
  assumes "1 \<le> (cmod x)\<^sup>2 + (cmod y)\<^sup>2"
  defines "n \<equiv> complex_of_real (sqrt ((cmod x)\<^sup>2 + (cmod y)\<^sup>2))"
  shows "n \<noteq> 0" and "(cmod (x / n))\<^sup>2 + (cmod (y / n))\<^sup>2 = 1"
    and "(cmod (y / n))\<^sup>2 + (cmod (x / n))\<^sup>2 = 1"
proof -
  define N where "N = (cmod x)\<^sup>2 + (cmod y)\<^sup>2"
  from assms(1) have N: "1 \<le> N" by (simp add: N_def)
  then have s: "0 < sqrt N" by simp
  have n: "n = complex_of_real (sqrt N)" by (simp add: n_def N_def)
  from s show "n \<noteq> 0" by (simp add: n)
  have cn: "cmod n = sqrt N" using s by (simp add: n)
  have "(cmod (x / n))\<^sup>2 + (cmod (y / n))\<^sup>2 = ((cmod x)\<^sup>2 + (cmod y)\<^sup>2) / (sqrt N)\<^sup>2"
    by (simp add: norm_divide cn power_divide add_divide_distrib)
  also have "\<dots> = N / N" using N by (simp add: N_def)
  also have "\<dots> = 1" using N by simp
  finally show "(cmod (x / n))\<^sup>2 + (cmod (y / n))\<^sup>2 = 1" .
  then show "(cmod (y / n))\<^sup>2 + (cmod (x / n))\<^sup>2 = 1" by (simp add: add.commute)
qed

lemma cmod_ge_one_Im: "1 \<le> \<bar>Im z\<bar> \<Longrightarrow> 1 \<le> (cmod z)\<^sup>2 + (cmod w)\<^sup>2"
proof -
  assume a: "1 \<le> \<bar>Im z\<bar>"
  with abs_Im_le_cmod [of z] have "1 \<le> cmod z" by linarith
  then have "1 \<le> (cmod z)\<^sup>2" by (simp add: one_le_power)
  moreover have "0 \<le> (cmod w)\<^sup>2" by simp
  ultimately show ?thesis by linarith
qed

lemma scaled_eq:
  fixes iv :: complex
  assumes "p * x + q * y = z * w"
  shows "p * (x * iv) + q * (y * iv) = z * iv * w"
proof -
  have "p * (x * iv) + q * (y * iv) = (p * x + q * y) * iv" by (simp add: algebra_simps)
  also have "\<dots> = z * w * iv" by (simp only: assms)
  finally show ?thesis by (simp add: mult.commute mult.left_commute)
qed

lemma example_eig_total_ok:
  assumes u: "unitary [[A, B], [C, D]]" and tr: "A + D = 0" and det: "A * D - B * C = 1"
  shows "eig_ok example_eig_total [[A, B], [C, D]]"
proof -
  note se = special_entries [OF u tr det]
  have q: "A * A - B * cnj B = - 1" by (rule se(3))
  show ?thesis
  proof (cases "0 \<le> Im A")
    case True
    define n where "n = complex_of_real (sqrt ((cmod (A + \<i>))\<^sup>2 + (cmod B)\<^sup>2))"
    from True have "1 \<le> \<bar>Im (A + \<i>)\<bar>" by simp
    then have N: "1 \<le> (cmod (A + \<i>))\<^sup>2 + (cmod B)\<^sup>2" by (rule cmod_ge_one_Im)
    note nc = normalise_columns [OF N, folded n_def]
    have e: "example_eig_total [[A, B], [C, D]] =
        ([\<i>, - \<i>], [[(A + \<i>) / n, B / n], [- cnj B / n, - (A + \<i>) / n]])"
      using True by (simp add: example_eig_total_def item_def Let_def n_def)
    have e1: "A * ((A + \<i>) / n) + B * (- cnj B / n) = (A + \<i>) / n * \<i>"
      unfolding divide_inverse se(1) se(2)
      by (rule scaled_eq) (use q in \<open>simp add: algebra_simps\<close>)
    have e2: "A * (B / n) + B * (- (A + \<i>) / n) = B / n * (- \<i>)"
      unfolding divide_inverse se(1) se(2)
      by (rule scaled_eq) (use q in \<open>simp add: algebra_simps\<close>)
    have e3: "C * ((A + \<i>) / n) + D * (- cnj B / n) = - cnj B / n * \<i>"
      unfolding divide_inverse se(1) se(2)
      by (rule scaled_eq) (use q in \<open>simp add: algebra_simps\<close>)
    have e4: "C * (B / n) + D * (- (A + \<i>) / n) = - (A + \<i>) / n * (- \<i>)"
      unfolding divide_inverse se(1) se(2)
      by (rule scaled_eq) (use q in \<open>simp add: algebra_simps\<close>)
    have n1: "(cmod ((A + \<i>) / n))\<^sup>2 + (cmod (- cnj B / n))\<^sup>2 = 1"
      using nc(2) by (simp add: norm_divide)
    have "cmod (- (A + \<i>) / n) = cmod ((A + \<i>) / n)"
      by (simp only: minus_divide_left [symmetric] norm_minus_cancel)
    then have n2: "(cmod (B / n))\<^sup>2 + (cmod (- (A + \<i>) / n))\<^sup>2 = 1"
      using nc(3) by simp
    show ?thesis
      using tr det e1 e2 e3 e4 n1 n2
      by (simp add: eig_ok_def e item_def det2_def dot_2x2 diag_m_2)
  next
    case False
    define n where "n = complex_of_real (sqrt ((cmod (\<i> - A))\<^sup>2 + (cmod B)\<^sup>2))"
    from False have "1 \<le> \<bar>Im (\<i> - A)\<bar>" by simp
    then have N: "1 \<le> (cmod (\<i> - A))\<^sup>2 + (cmod B)\<^sup>2" by (rule cmod_ge_one_Im)
    note nc = normalise_columns [OF N, folded n_def]
    have e: "example_eig_total [[A, B], [C, D]] =
        ([\<i>, - \<i>], [[B / n, (\<i> - A) / n], [(\<i> - A) / n, cnj B / n]])"
      using False by (simp add: example_eig_total_def item_def Let_def n_def)
    have e1: "A * (B / n) + B * ((\<i> - A) / n) = B / n * \<i>"
      unfolding divide_inverse se(1) se(2)
      by (rule scaled_eq) (use q in \<open>simp add: algebra_simps\<close>)
    have e2: "A * ((\<i> - A) / n) + B * (cnj B / n) = (\<i> - A) / n * (- \<i>)"
      unfolding divide_inverse se(1) se(2)
      by (rule scaled_eq) (use q in \<open>simp add: algebra_simps\<close>)
    have e3: "C * (B / n) + D * ((\<i> - A) / n) = (\<i> - A) / n * \<i>"
      unfolding divide_inverse se(1) se(2)
      by (rule scaled_eq) (use q in \<open>simp add: algebra_simps\<close>)
    have e4: "C * ((\<i> - A) / n) + D * (cnj B / n) = cnj B / n * (- \<i>)"
      unfolding divide_inverse se(1) se(2)
      by (rule scaled_eq) (use q in \<open>simp add: algebra_simps\<close>)
    have n1: "(cmod (B / n))\<^sup>2 + (cmod ((\<i> - A) / n))\<^sup>2 = 1"
      using nc(3) by simp
    have n2: "(cmod ((\<i> - A) / n))\<^sup>2 + (cmod (cnj B / n))\<^sup>2 = 1"
      using nc(2) by (simp add: norm_divide)
    show ?thesis
      using tr det e1 e2 e3 e4 n1 n2
      by (simp add: eig_ok_def e item_def det2_def dot_2x2 diag_m_2)
  qed
qed


lemma demultiplex_matrix_special:
  assumes a: "unitary a" and b: "unitary b" and r: "demultiplex_r (dot a (ct b)) = Inr r"
  shows "\<exists>A B C D. dot (dot r (dot a (ct b))) r = [[A, B], [C, D]] \<and> unitary [[A, B], [C, D]] \<and>
           A + D = 0 \<and> A * D - B * C = 1"
proof -
  define x where "x = dot a (ct b)"
  have ux: "unitary x" unfolding x_def using a b by (intro unitary_dot unitary_ct)
  then obtain p q s t where xe: "x = [[p, q], [s, t]]"
    and x1: "cnj p * p + cnj s * s = 1" and x2: "cnj p * q + cnj s * t = 0"
    and x3: "cnj q * p + cnj t * s = 0" and x4: "cnj q * q + cnj t * t = 1"
    by (rule unitaryE)
  from demultiplex_r_unitary [OF x1 x2 x3 x4] obtain r1 r2 where
    r': "demultiplex_r x = Inr [[r1, 0], [0, r2]]" and m1: "cmod r1 = 1" and m2: "cmod r2 = 1"
    and tr0: "r1 * r1 * p + r2 * r2 * t = 0"
    and det1: "(r1 * r1) * (r2 * r2) * (p * t - q * s) = 1"
    unfolding xe by blast
  from r r' have re: "r = [[r1, 0], [0, r2]]" by (simp add: x_def)
  have ur: "unitary r" unfolding re using m1 m2 by (rule unitary_diag)
  have um: "unitary (dot (dot r x) r)" using ur ux by (intro unitary_dot)
  have me: "dot (dot r x) r = [[r1 * p * r1, r1 * q * r2], [r2 * s * r1, r2 * t * r2]]"
    by (simp add: re xe dot_2x2)
  have tr: "r1 * p * r1 + r2 * t * r2 = 0"
    using tr0 by (simp add: mult.commute mult.left_commute)
  have "(r1 * p * r1) * (r2 * t * r2) - (r1 * q * r2) * (r2 * s * r1)
      = (r1 * r1) * (r2 * r2) * (p * t - q * s)"
    by (simp add: algebra_simps)
  with det1 have det: "(r1 * p * r1) * (r2 * t * r2) - (r1 * q * r2) * (r2 * s * r1) = 1"
    by simp
  from um me tr det show ?thesis unfolding x_def [symmetric] by (metis (no_types))
qed

lemma example_eig_total_contract: "eig_contract example_eig_total"
  unfolding eig_contract_def
proof (intro allI impI)
  fix a b r
  assume "unitary a \<and> unitary b \<and> demultiplex_r (dot a (ct b)) = Inr r"
  then obtain A B C D where "dot (dot r (dot a (ct b))) r = [[A, B], [C, D]]"
    "unitary [[A, B], [C, D]]" "A + D = 0" "A * D - B * C = 1"
    using demultiplex_matrix_special [of a b r] by blast
  then show "eig_ok example_eig_total (dot (dot r (dot a (ct b))) r)"
    by (simp add: example_eig_total_ok)
qed

lemma demultiplex_step_total_state:
  assumes "dec_invariant k s" and "eig_contract eig"
    and "dec_step < k" and "ucg_index < 2 ^ dec_step" and "i < 2 ^ (k - dec_step) div 2"
  shows "\<exists>s'. demultiplex_step eig k dec_step ucg_index i s = Inr s' \<and> dec_invariant k s'"
  using demultiplex_step_total [of k "fst s" "snd s" eig dec_step ucg_index i] assms by simp

lemma dec_ucg_help_total:
  assumes nq: "num_qubits self = Suc k" and lp: "length (params self) = 2 ^ k"
    and up: "list_all unitary (params self)" and ec: "eig_contract eig"
  shows "\<exists>gates diag. dec_ucg_help eig self = Inr (gates, diag) \<and> dec_invariant k (gates, diag)"
proof -
  have init: "dec_invariant k (params self, replicate (2 ^ Suc k) 1)"
    using lp up by (simp add: dec_invariant_def)
  have "\<exists>s'. for_each [0..<k] (\<lambda>dec_step.
           for_each [0..<2 ^ dec_step] (\<lambda>ucg_index.
             for_each [0..<2 ^ (k - dec_step) div 2]
               (demultiplex_step eig k dec_step ucg_index)))
           (params self, replicate (2 ^ Suc k) 1) = Inr s' \<and> dec_invariant k s'"
  proof (rule for_each_total [where P = "dec_invariant k"])
    fix dec_step s
    assume ds: "dec_step \<in> set [0..<k]" and s: "dec_invariant k s"
    show "\<exists>s'. for_each [0..<2 ^ dec_step] (\<lambda>ucg_index.
             for_each [0..<2 ^ (k - dec_step) div 2]
               (demultiplex_step eig k dec_step ucg_index)) s = Inr s' \<and> dec_invariant k s'"
    proof (rule for_each_total [where P = "dec_invariant k"])
      fix ucg_index s
      assume ui: "ucg_index \<in> set [0..<2 ^ dec_step]" and s: "dec_invariant k s"
      show "\<exists>s'. for_each [0..<2 ^ (k - dec_step) div 2]
               (demultiplex_step eig k dec_step ucg_index) s = Inr s' \<and> dec_invariant k s'"
      proof (rule for_each_total [where P = "dec_invariant k"])
        fix i s
        assume "i \<in> set [0..<2 ^ (k - dec_step) div 2]" and "dec_invariant k s"
        then show "\<exists>s'. demultiplex_step eig k dec_step ucg_index i s = Inr s' \<and> dec_invariant k s'"
          using ds ui ec by (intro demultiplex_step_total_state) simp_all
      qed (rule s)
    qed (rule s)
  qed (rule init)
  then show ?thesis by (simp add: dec_ucg_help_def nq Let_def) 
qed


subsection \<open>The leaves and the C-NOTs\<close>

lemma num_trailing_zeros_2: "num_trailing_zeros 2 = 1"
  by (simp add: num_trailing_zeros_rec [of 2] num_trailing_zeros_1)

lemma num_trailing_zeros_3: "num_trailing_zeros 3 = 0"
  by (simp add: num_trailing_zeros_rec [of 3])


text \<open>
  C3.  For \<open>k \<ge> 1\<close> controls, \<open>2 ^ k\<close> unitary gates and an eigensolver that honours its
  contract, \<open>_dec_ucg\<close> returns, and its circuit is the leaves \<open>0, \<dots>, 2 ^ k - 1\<close> of
  \<open>spec_leaf\<close> in order over the gates \<open>_dec_ucg_help\<close> computed (followed by the diagonal
  gate unless \<open>up_to_diagonal\<close>): the first leaf is \<open>H g\<close>, the last \<open>g Rz(pi/2) H\<close> with no
  C-NOT after it, every interior leaf \<open>H g Rz(pi/2) H\<close>, and after leaf \<open>i < 2 ^ k - 1\<close>
  comes a C-NOT on the target whose control is the entry of \<open>q_controls\<close> at the number
  \<open>t\<close> of trailing zero bits of \<open>i + 1\<close>: \<open>2 ^ t\<close> divides \<open>i + 1\<close>, \<open>2 ^ (t + 1)\<close> does not, and
  \<open>t < k\<close>.
\<close>

theorem dec_ucg_circuit:
  assumes "num_qubits self = Suc k" and "1 \<le> k" and "length (params self) = 2 ^ k"
    and "list_all unitary (params self)" and "eig_contract eig"
  shows "\<exists>gates diag.
      dec_ucg_help eig self = Inr (gates, diag) \<and> length gates = 2 ^ k \<and>
      dec_ucg eig euler_angles_1q self =
        Inr (concat (map (spec_leaf gates) [0..<2 ^ k])
               @ (if up_to_diagonal self then [] else [Diag diag [0..<Suc k]]), diag) \<and>
      (\<forall>i < 2 ^ k - 1.
         2 ^ num_trailing_zeros (Suc i) dvd Suc i \<and>
         \<not> 2 ^ Suc (num_trailing_zeros (Suc i)) dvd Suc i \<and>
         num_trailing_zeros (Suc i) < k \<and>
         tl [0..<Suc k] ! num_trailing_zeros (Suc i) = Suc (num_trailing_zeros (Suc i)))"
proof -
  from dec_ucg_help_total [OF assms(1,3,4,5)] obtain gates diag where
    h: "dec_ucg_help eig self = Inr (gates, diag)" and inv: "dec_invariant k (gates, diag)"
    by blast
  from inv have len: "length gates = 2 ^ k" by (simp add: dec_invariant_def)
  have qc: "tl [0..<num_qubits self] = tl [0..<Suc k]" using assms(1) by simp
  have nonempty: "length (tl [0..<num_qubits self]) \<noteq> 0" using assms(1,2) by simp
  have places: "for_each [0..<length gates] (place_gate gates (tl [0..<num_qubits self]) 0) []
      = Inr ([] @ concat (map (spec_leaf gates) [0..<2 ^ k]))"
    unfolding len by (rule place_gates [OF len order_refl qc])
  have run: "dec_ucg eig euler_angles_1q self =
        Inr (concat (map (spec_leaf gates) [0..<2 ^ k])
               @ (if up_to_diagonal self then [] else [Diag diag [0..<Suc k]]), diag)"
    unfolding dec_ucg_def Let_def using nonempty h places assms(1)
    by (simp del: upt_Suc length_tl)
  have tz: "2 ^ num_trailing_zeros (Suc i) dvd Suc i \<and>
         \<not> 2 ^ Suc (num_trailing_zeros (Suc i)) dvd Suc i \<and>
         num_trailing_zeros (Suc i) < k \<and>
         tl [0..<Suc k] ! num_trailing_zeros (Suc i) = Suc (num_trailing_zeros (Suc i))"
    if "i < 2 ^ k - 1" for i
  proof -
    from that have "0 < Suc i" "Suc i < 2 ^ k" by simp_all
    then have l: "num_trailing_zeros (Suc i) < k" by (rule num_trailing_zeros_less)
    then have "tl [0..<Suc k] ! num_trailing_zeros (Suc i) = Suc (num_trailing_zeros (Suc i))"
      by (simp add: tl_upt_Suc del: upt_Suc)
    with l num_trailing_zeros_dvd [of "Suc i"] show ?thesis by blast
  qed
  from h len run tz show ?thesis by blast
qed

theorem dec_ucg_circuit_witness:
  "\<exists>gates diag.
      dec_ucg_help example_eig_total example_ucg = Inr (gates, diag) \<and> length gates = 4 \<and>
      dec_ucg example_eig_total (\<lambda>m. (0, 0, 0)) example_ucg =
        Inr ([Squ (dot h_gate (gates ! 0)) 0, CX 1 0,
              Squ (dot (dot h_gate (dot (gates ! 1) (rz (pi / 2)))) h_gate) 0, CX 2 0,
              Squ (dot (dot h_gate (dot (gates ! 2) (rz (pi / 2)))) h_gate) 0, CX 1 0,
              Squ (dot (dot (gates ! 3) (rz (pi / 2))) h_gate) 0,
              Diag diag [0, 1, 2]], diag)"
proof -
  have u: "list_all unitary (params example_ucg)"
    by (simp add: example_ucg_def unitary_eye)
  have n: "num_qubits example_ucg = Suc 2" "(1::nat) \<le> 2" "length (params example_ucg) = 2 ^ 2"
    by (simp_all add: example_ucg_def)
  have upt4: "[0..<4] = [0, 1, 2, 3::nat]" by (simp add: upt_conv_Cons del: upt_Suc)
  have upt3: "[0..<Suc 2] = [0, 1, 2::nat]" by (simp add: upt_conv_Cons del: upt_Suc)
  have s2: "Suc (Suc 0) = 2" "Suc 2 = 3" by simp_all
  from dec_ucg_circuit [OF n u example_eig_total_contract, of "\<lambda>m. (0, 0, 0)"]
  obtain gates diag where
    a: "dec_ucg_help example_eig_total example_ucg = Inr (gates, diag)" and b: "length gates = 4"
    and c: "dec_ucg example_eig_total (\<lambda>m. (0, 0, 0)) example_ucg =
        Inr (concat (map (spec_leaf gates) [0..<4])
               @ (if up_to_diagonal example_ucg then [] else [Diag diag [0..<Suc 2]]), diag)"
    by auto
  have "concat (map (spec_leaf gates) [0..<4])
               @ (if up_to_diagonal example_ucg then [] else [Diag diag [0..<Suc 2]]) =
     [Squ (dot h_gate (gates ! 0)) 0, CX 1 0,
              Squ (dot (dot h_gate (dot (gates ! 1) (rz (pi / 2)))) h_gate) 0, CX 2 0,
              Squ (dot (dot h_gate (dot (gates ! 2) (rz (pi / 2)))) h_gate) 0, CX 1 0,
              Squ (dot (dot (gates ! 3) (rz (pi / 2))) h_gate) 0,
              Diag diag [0, 1, 2]]"
    unfolding upt4 upt3
    by (simp add: spec_leaf_def b example_ucg_def s2 num_trailing_zeros_1 num_trailing_zeros_2
        num_trailing_zeros_3)
  with a b c show ?thesis by auto
qed


end
